theory Spec2Isabelle
  imports Complex_Main "HOL-Library.Word"
begin

section \<open>UART baudrate analyzer: the model\<close>

text \<open>
  A shallow embedding of \<^verbatim>\<open>owfmodules/uart/baudrate_analyzer.py\<close>
  (class \<^verbatim>\<open>BaudrateAnalyzer\<close>). Bytes are 8-bit words, Python's \<^verbatim>\<open>int\<close> is
  \<^typ>\<open>int\<close>, and Python's \<^verbatim>\<open>float\<close> is idealised as \<^typ>\<open>real\<close>: the rounding of
  floating-point operations is not modelled. Strings are lists of 8-bit characters.
  Exceptions are values of type \<open>error\<close>, carried in the left summand of a sum type.
\<close>

type_synonym byte = "8 word"

datatype error =
    ValueError
  | ZeroDivisionError
  | TransportError string

subsection \<open>Entropy of a sample\<close>

text \<open>
  \<^verbatim>\<open>Counter(b_buff)\<close>: a dictionary from byte value to number of occurrences, in order of
  first occurrence. \<open>counter_incr\<close> is the update \<^verbatim>\<open>d[b] = d.get(b, 0) + 1\<close>.
\<close>

fun counter_incr :: "byte \<Rightarrow> (byte \<times> nat) list \<Rightarrow> (byte \<times> nat) list" where
  "counter_incr b [] = [(b, 1)]"
| "counter_incr b ((k, c) # kcs) =
     (if k = b then (k, c + 1) # kcs else (k, c) # counter_incr b kcs)"

definition Counter :: "byte list \<Rightarrow> (byte \<times> nat) list" where
  "Counter b_buff = foldl (\<lambda>d b. counter_incr b d) [] b_buff"

definition counter_values :: "(byte \<times> nat) list \<Rightarrow> nat list" where
  "counter_values p = map snd p"

text \<open>
  Python's true division raises on a zero divisor; \<^verbatim>\<open>math.log(x, base)\<close> raises a
  \<^verbatim>\<open>ValueError\<close> outside its domain and divides \<open>ln x\<close> by \<open>ln base\<close>.
\<close>

definition py_truediv :: "real \<Rightarrow> real \<Rightarrow> error + real" where
  "py_truediv a b = (if b = 0 then Inl ZeroDivisionError else Inr (a / b))"

definition math_log :: "real \<Rightarrow> real \<Rightarrow> error + real" where
  "math_log x base =
     (if x \<le> 0 \<or> base \<le> 0 then Inl ValueError
      else py_truediv (ln x) (ln base))"

text \<open>One term of the generator: \<^verbatim>\<open>count / lns * math.log(count / lns, 2)\<close>.\<close>

definition entropy_term :: "nat \<Rightarrow> real \<Rightarrow> error + real" where
  "entropy_term count lns =
     (case py_truediv (real count) lns of
        Inl e \<Rightarrow> Inl e
      | Inr p \<Rightarrow>
          (case py_truediv (real count) lns of
             Inl e \<Rightarrow> Inl e
           | Inr q \<Rightarrow>
               (case math_log q 2 of
                  Inl e \<Rightarrow> Inl e
                | Inr l \<Rightarrow> Inr (p * l))))"

text \<open>\<^verbatim>\<open>sum(... for count in p.values())\<close>: left to right from 0, the first exception wins.\<close>

fun sum_terms :: "real \<Rightarrow> nat list \<Rightarrow> real \<Rightarrow> error + real" where
  "sum_terms acc [] lns = Inr acc"
| "sum_terms acc (count # counts) lns =
     (case entropy_term count lns of
        Inl e \<Rightarrow> Inl e
      | Inr t \<Rightarrow> sum_terms (acc + t) counts lns)"

definition entropy :: "byte list \<Rightarrow> error + real" where
  "entropy b_buff =
     (let p = Counter b_buff; lns = real (length b_buff) in
      case sum_terms 0 (counter_values p) lns of
        Inl e \<Rightarrow> Inl e
      | Inr s \<Rightarrow> Inr (- s))"

text \<open>
  The textbook Shannon entropy of the empirical distribution of a sample, used to state
  what \<open>entropy\<close> computes.
\<close>

definition shannon :: "byte list \<Rightarrow> real" where
  "shannon bs =
     - (\<Sum>v\<in>set bs. real (count_list bs v) / real (length bs)
                     * log 2 (real (count_list bs v) / real (length bs)))"

subsection \<open>Options\<close>

text \<open>
  The values of \<^verbatim>\<open>self.options\<close> and \<^verbatim>\<open>self.advanced_options\<close>, already converted
  to their declared types by the framework. An optional option left at \<^verbatim>\<open>""\<close> is \<open>None\<close>.
\<close>

record options =
  opt_uart_interface :: int
  opt_mode :: string
  opt_reset_pin :: "int option"
  opt_trigger :: bool
  opt_reset_pol :: string
  opt_reset_hold :: real
  opt_reset_delay :: real
  opt_min_entropy :: "real option"
  opt_baudrate_min :: int
  opt_baudrate_max :: int
  opt_baudrate_inc :: int
  opt_baudrate_list :: string
  opt_trigger_char :: "byte list"

subsection \<open>Collaborators and the observable trace\<close>

text \<open>
  The UART adapter, the GPIO line and the clock are outside the module. They are a
  parameter of the model: a state of any type \<open>'s\<close> and one function per operation,
  returning the operation's result or the exception it raises, and the next state.
  \<open>poll_window\<close> stands for the busy-wait of \<^verbatim>\<open>wait_bytes\<close>: whether some call of
  \<^verbatim>\<open>in_waiting()\<close> within the one-second window returned a positive count. Wall-clock
  time itself is not modelled.
\<close>

record 's hardware =
  serial_read_all :: "'s \<Rightarrow> (error + unit) \<times> 's"
  uart_create :: "int \<Rightarrow> 's \<Rightarrow> (error + unit) \<times> 's"
  uart_configure :: "int \<Rightarrow> 's \<Rightarrow> (error + unit) \<times> 's"
  uart_in_waiting :: "'s \<Rightarrow> (error + int) \<times> 's"
  uart_receive :: "int \<Rightarrow> 's \<Rightarrow> (error + byte list) \<times> 's"
  uart_transmit :: "byte list \<Rightarrow> 's \<Rightarrow> (error + unit) \<times> 's"
  poll_window :: "'s \<Rightarrow> (error + bool) \<times> 's"
  gpio_create :: "int \<Rightarrow> 's \<Rightarrow> (error + unit) \<times> 's"
  gpio_set_output :: "'s \<Rightarrow> (error + unit) \<times> 's"
  gpio_set_status :: "nat \<Rightarrow> 's \<Rightarrow> (error + unit) \<times> 's"

datatype level = ERROR | WARNING | INFO | HEADER

text \<open>The fixed texts the module hands to the logger, one constructor per text.\<close>

datatype message =
    InvalidResetPolarity
  | InvalidResetPin
  | InvalidModeOption
  | EmptyOrInvalidBaudrateList
  | TriggeringTheDevice
  | AttemptingToResetTheTarget
  | StartingBaudrateDetection
  | PressCtrlCToCancel

text \<open>
  Every call to a collaborator and every message handed to the logger is recorded, in
  order. \<open>LogError\<close> is an exception logged at level error, \<open>LogNoData\<close> the warning
  that names a rate without data. \<open>PrintResult\<close> is the line written by \<^verbatim>\<open>print_result\<close>: the rate, the entropy
  (before its formatting to three decimals) and the hex-escaped sample.
\<close>

datatype event =
    SerialReadAll
  | UartCreate int
  | UartConfigure int
  | UartInWaiting
  | UartReceive int
  | UartTransmit "byte list"
  | PollWindow
  | GpioCreate int
  | GpioSetOutput
  | GpioSetStatus nat
  | Sleep real
  | LogError error
  | LogMessage level message
  | LogNoData int
  | ProgressStart
  | ProgressStatus "byte list"
  | ProgressStop
  | PrintResult int real string

record 's world =
  hw :: 's
  reset_pin :: "int option"
  trace :: "event list"

definition call :: "event \<Rightarrow> ('s \<Rightarrow> (error + 'a) \<times> 's) \<Rightarrow> 's world \<Rightarrow> (error + 'a) \<times> 's world" where
  "call ev operation w =
     (case operation (hw w) of
        (r, s) \<Rightarrow> (r, w\<lparr>hw := s, trace := trace w @ [ev]\<rparr>))"

definition emit :: "event \<Rightarrow> 's world \<Rightarrow> 's world" where
  "emit ev w = w\<lparr>trace := trace w @ [ev]\<rparr>"

text \<open>\<^verbatim>\<open>time.sleep\<close> raises \<^verbatim>\<open>ValueError\<close> on a negative length.\<close>

definition sleep :: "real \<Rightarrow> 's world \<Rightarrow> (error + unit) \<times> 's world" where
  "sleep secs w = (if secs < 0 then (Inl ValueError, w) else (Inr (), emit (Sleep secs) w))"

subsection \<open>String helpers of Python used by the module\<close>

text \<open>
  \<^verbatim>\<open>str.upper\<close> on ASCII letters. The module compares the result only with the ASCII words
  LOW, HIGH, INCREMENTAL and LIST.
\<close>

definition upper_char :: "char \<Rightarrow> char" where
  "upper_char c =
     (let n = (of_char c :: nat) in if 97 \<le> n \<and> n \<le> 122 then char_of (n - 32) else c)"

definition upper :: "string \<Rightarrow> string" where
  "upper s = map upper_char s"

text \<open>The whitespace characters below 256 that \<^verbatim>\<open>str.strip\<close> and \<^verbatim>\<open>int\<close> skip.\<close>

definition isspace :: "char \<Rightarrow> bool" where
  "isspace c =
     (let n = (of_char c :: nat) in
      (9 \<le> n \<and> n \<le> 13) \<or> (28 \<le> n \<and> n \<le> 32) \<or> n = 133 \<or> n = 160)"

definition strip :: "string \<Rightarrow> string" where
  "strip s = rev (dropWhile isspace (rev (dropWhile isspace s)))"

text \<open>\<^verbatim>\<open>s.split(sep)\<close> for a one-character separator: never an empty list.\<close>

fun str_split :: "char \<Rightarrow> string \<Rightarrow> string list" where
  "str_split sep [] = [[]]"
| "str_split sep (c # cs) =
     (if c = sep then [] # str_split sep cs
      else (case str_split sep cs of
              [] \<Rightarrow> [[c]]
            | part # parts \<Rightarrow> (c # part) # parts))"

text \<open>
  \<^verbatim>\<open>int(s)\<close> in base 10: surrounding whitespace, an optional sign, then decimal digits,
  where single underscores may separate digits. Anything else raises \<^verbatim>\<open>ValueError\<close>.
\<close>

definition isdigit :: "char \<Rightarrow> bool" where
  "isdigit c = (let n = (of_char c :: nat) in 48 \<le> n \<and> n \<le> 57)"

fun parse_digits :: "nat \<Rightarrow> bool \<Rightarrow> string \<Rightarrow> nat option" where
  "parse_digits acc after_digit [] = (if after_digit then Some acc else None)"
| "parse_digits acc after_digit (c # cs) =
     (if isdigit c then parse_digits (acc * 10 + (of_char c - 48)) True cs
      else if c = CHR ''_'' \<and> after_digit then parse_digits acc False cs
      else None)"

definition py_int :: "string \<Rightarrow> error + int" where
  "py_int s =
     (case strip s of
        [] \<Rightarrow> Inl ValueError
      | c # cs \<Rightarrow>
          if c = CHR ''-'' then
            (case parse_digits 0 False cs of None \<Rightarrow> Inl ValueError | Some n \<Rightarrow> Inr (- int n))
          else if c = CHR ''+'' then
            (case parse_digits 0 False cs of None \<Rightarrow> Inl ValueError | Some n \<Rightarrow> Inr (int n))
          else
            (case parse_digits 0 False (c # cs) of None \<Rightarrow> Inl ValueError | Some n \<Rightarrow> Inr (int n)))"

text \<open>\<^verbatim>\<open>[int(b.strip()) for b in xs]\<close>: the first failing entry raises.\<close>

fun int_all :: "string list \<Rightarrow> error + int list" where
  "int_all [] = Inr []"
| "int_all (b # bs) =
     (case py_int (strip b) of
        Inl e \<Rightarrow> Inl e
      | Inr n \<Rightarrow> (case int_all bs of Inl e \<Rightarrow> Inl e | Inr ns \<Rightarrow> Inr (n # ns)))"

text \<open>
  \<^verbatim>\<open>range(start, stop, step)\<close>, as the list of its elements; a zero step raises
  \<^verbatim>\<open>ValueError\<close>.
\<close>

function range_up :: "int \<Rightarrow> int \<Rightarrow> int \<Rightarrow> int list" where
  "range_up i stop step =
     (if 0 < step \<and> i < stop then i # range_up (i + step) stop step else [])"
  by pat_completeness auto
termination
  by (relation "measure (\<lambda>(i, stop, step). nat (stop - i))") auto

declare range_up.simps [simp del]

function range_down :: "int \<Rightarrow> int \<Rightarrow> int \<Rightarrow> int list" where
  "range_down i stop step =
     (if step < 0 \<and> stop < i then i # range_down (i + step) stop step else [])"
  by pat_completeness auto
termination
  by (relation "measure (\<lambda>(i, stop, step). nat (i - stop))") auto

declare range_down.simps [simp del]

definition py_range :: "int \<Rightarrow> int \<Rightarrow> int \<Rightarrow> error + int list" where
  "py_range start stop step =
     (if step = 0 then Inl ValueError
      else if 0 < step then Inr (range_up start stop step)
      else Inr (range_down start stop step))"

subsection \<open>The module's methods\<close>

text \<open>
  \<^verbatim>\<open>check_options\<close>. The list branch only splits and strips the entries; nothing in its
  \<^verbatim>\<open>try\<close> block can raise on a string, so the \<^verbatim>\<open>except\<close> branch has no counterpart here.
\<close>

definition check_options :: "options \<Rightarrow> 's world \<Rightarrow> bool \<times> 's world" where
  "check_options opts w =
     (if opt_reset_pin opts \<noteq> None \<and> upper (opt_reset_pol opts) \<notin> set [''LOW'', ''HIGH'']
      then (False, emit (LogMessage ERROR InvalidResetPolarity) w)
      else if (case opt_reset_pin opts of None \<Rightarrow> False | Some pin \<Rightarrow> \<not> (0 \<le> pin \<and> pin < 15))
      then (False, emit (LogMessage ERROR InvalidResetPin) w)
      else if upper (opt_mode opts) \<notin> set [''INCREMENTAL'', ''LIST'']
      then (False, emit (LogMessage ERROR InvalidModeOption) w)
      else if upper (opt_mode opts) = ''LIST''
      then (let baud_list = map strip (str_split CHR '','' (opt_baudrate_list opts)) in
            if baud_list = []
            then (False, emit (LogMessage ERROR EmptyOrInvalidBaudrateList) w)
            else (True, w))
      else (True, w))"

definition wait_bytes :: "'s hardware \<Rightarrow> 's world \<Rightarrow> (error + bool) \<times> 's world" where
  "wait_bytes ops w = call PollWindow (poll_window ops) w"

text \<open>\<^verbatim>\<open>change_baudrate\<close>: any exception of its three steps is logged and turned into \<open>False\<close>.\<close>

definition change_baudrate :: "'s hardware \<Rightarrow> int \<Rightarrow> 's world \<Rightarrow> bool \<times> 's world" where
  "change_baudrate ops baudrate w =
     (case call SerialReadAll (serial_read_all ops) w of
        (Inl err, w1) \<Rightarrow> (False, emit (LogError err) w1)
      | (Inr _, w1) \<Rightarrow>
          (case call (UartConfigure baudrate) (uart_configure ops baudrate) w1 of
             (Inl err, w2) \<Rightarrow> (False, emit (LogError err) w2)
           | (Inr _, w2) \<Rightarrow>
               (case call UartInWaiting (uart_in_waiting ops) w2 of
                  (Inl err, w3) \<Rightarrow> (False, emit (LogError err) w3)
                | (Inr n, w3) \<Rightarrow>
                    (case call (UartReceive n) (uart_receive ops n) w3 of
                       (Inl err, w4) \<Rightarrow> (False, emit (LogError err) w4)
                     | (Inr _, w4) \<Rightarrow> (True, w4)))))"

definition trigger_device :: "'s hardware \<Rightarrow> options \<Rightarrow> 's world \<Rightarrow> (error + unit) \<times> 's world" where
  "trigger_device ops opts w =
     (case call (UartTransmit (opt_trigger_char opts))
             (uart_transmit ops (opt_trigger_char opts))
             (emit (LogMessage INFO TriggeringTheDevice) w) of
        (Inl e, w1) \<Rightarrow> (Inl e, w1)
      | (Inr _, w1) \<Rightarrow> sleep (2 / 10) w1)"

definition hex_digit :: "nat \<Rightarrow> char" where
  "hex_digit n = (if n < 10 then char_of (48 + n) else char_of (87 + n))"

definition bytearray_to_hex_repr :: "byte list \<Rightarrow> string" where
  "bytearray_to_hex_repr b_buff =
     concat (map (\<lambda>b. [CHR 0x5C, CHR ''x'', hex_digit (unat b div 16), hex_digit (unat b mod 16)])
               b_buff)"

definition print_result :: "int \<Rightarrow> byte list \<Rightarrow> real \<Rightarrow> 's world \<Rightarrow> 's world" where
  "print_result baudrate b_buff ent w =
     emit (PrintResult baudrate ent (bytearray_to_hex_repr b_buff)) w"

definition threshold :: nat where
  "threshold = 10"

text \<open>
  The \<^verbatim>\<open>while count < threshold\<close> loop of \<^verbatim>\<open>process_baudrate\<close>, on the loop variables
  \<^verbatim>\<open>count\<close>, \<^verbatim>\<open>loop\<close> and \<^verbatim>\<open>received_bytes\<close>. It yields \<open>Some\<close> of the sample when the
  loop condition fails, and \<open>None\<close> when the body leaves through \<^verbatim>\<open>return False\<close>.
  The text shown by \<^verbatim>\<open>progress.status\<close> is recorded as the bytes it renders.
\<close>

function process_loop ::
  "'s hardware \<Rightarrow> options \<Rightarrow> int \<Rightarrow> nat \<Rightarrow> nat \<Rightarrow> byte list \<Rightarrow> 's world
     \<Rightarrow> (error + byte list option) \<times> 's world" where
  "process_loop ops opts baudrate count loop received_bytes w =
     (if count < threshold then
        (case wait_bytes ops w of
           (Inl e, w1) \<Rightarrow> (Inl e, w1)
         | (Inr True, w1) \<Rightarrow>
             (case call (UartReceive 1) (uart_receive ops 1) w1 of
                (Inl e, w2) \<Rightarrow> (Inl e, w2)
              | (Inr tmp, w2) \<Rightarrow>
                  process_loop ops opts baudrate (count + 1) loop (received_bytes @ tmp)
                    (emit (ProgressStatus tmp) w2))
         | (Inr False, w1) \<Rightarrow>
             (if opt_trigger opts \<and> loop < 3 then
                (case trigger_device ops opts w1 of
                   (Inl e, w2) \<Rightarrow> (Inl e, w2)
                 | (Inr _, w2) \<Rightarrow>
                     process_loop ops opts baudrate count (loop + 1) received_bytes w2)
              else (Inr None, emit (LogNoData baudrate) (emit ProgressStop w1))))
      else (Inr (Some received_bytes), w))"
  by pat_completeness auto
termination
  by (relation "measure (\<lambda>(ops, opts, baudrate, count, loop, received_bytes, w).
                   (threshold - count) + (3 - loop))") auto

declare process_loop.simps [simp del]

text \<open>
  \<^verbatim>\<open>process_baudrate\<close>. Its result is \<open>Some False\<close> for \<^verbatim>\<open>return False\<close> and \<open>None\<close>
  when the body runs to its end without a \<^verbatim>\<open>return\<close>, that is Python's \<^verbatim>\<open>None\<close>.
\<close>

definition process_baudrate ::
  "'s hardware \<Rightarrow> options \<Rightarrow> int \<Rightarrow> 's world \<Rightarrow> (error + bool option) \<times> 's world" where
  "process_baudrate ops opts baudrate w =
     (case process_loop ops opts baudrate 0 0 [] (emit ProgressStart w) of
        (Inl e, w1) \<Rightarrow> (Inl e, w1)
      | (Inr None, w1) \<Rightarrow> (Inr (Some False), w1)
      | (Inr (Some received_bytes), w1) \<Rightarrow>
          (case entropy received_bytes of
             Inl e \<Rightarrow> (Inl e, w1)
           | Inr ent \<Rightarrow>
               (case opt_min_entropy opts of
                  Some min_entropy \<Rightarrow>
                    (if ent \<ge> min_entropy
                     then (Inr None, print_result baudrate received_bytes ent w1)
                     else (Inr None, w1))
                | None \<Rightarrow> (Inr None, print_result baudrate received_bytes ent w1))))"

text \<open>Python's truth value of what \<^verbatim>\<open>process_baudrate\<close> returns.\<close>

definition truthy :: "bool option \<Rightarrow> bool" where
  "truthy r = (case r of None \<Rightarrow> False | Some b \<Rightarrow> b)"

definition reset_target :: "'s hardware \<Rightarrow> options \<Rightarrow> 's world \<Rightarrow> (error + unit) \<times> 's world" where
  "reset_target ops opts w =
     (case reset_pin w of
        None \<Rightarrow> (Inr (), w)
      | Some pin \<Rightarrow>
          (let active = (if upper (opt_reset_pol opts) = ''LOW'' then 0 else 1 :: nat);
               w0 = emit (LogMessage INFO AttemptingToResetTheTarget) w
           in case call (GpioSetStatus active) (gpio_set_status ops active) w0 of
                (Inl e, w1) \<Rightarrow> (Inl e, w1)
              | (Inr _, w1) \<Rightarrow>
                  (case sleep (opt_reset_hold opts) w1 of
                     (Inl e, w2) \<Rightarrow> (Inl e, w2)
                   | (Inr _, w2) \<Rightarrow>
                       (case call (GpioSetStatus (1 - active))
                               (gpio_set_status ops (1 - active)) w2 of
                          (Inl e, w3) \<Rightarrow> (Inl e, w3)
                        | (Inr _, w3) \<Rightarrow> sleep (opt_reset_delay opts) w3))))"

definition init :: "'s hardware \<Rightarrow> options \<Rightarrow> 's world \<Rightarrow> (error + unit) \<times> 's world" where
  "init ops opts w =
     (case call (UartCreate (opt_uart_interface opts))
             (uart_create ops (opt_uart_interface opts)) w of
        (Inl e, w1) \<Rightarrow> (Inl e, w1)
      | (Inr _, w1) \<Rightarrow>
          (case opt_reset_pin opts of
             None \<Rightarrow> (Inr (), w1\<lparr>reset_pin := None\<rparr>)
           | Some pin \<Rightarrow>
               (case call (GpioCreate pin) (gpio_create ops pin) (w1\<lparr>reset_pin := None\<rparr>) of
                  (Inl e, w2) \<Rightarrow> (Inl e, w2)
                | (Inr _, w2) \<Rightarrow>
                    (case call GpioSetOutput (gpio_set_output ops) (w2\<lparr>reset_pin := Some pin\<rparr>) of
                       (Inl e, w3) \<Rightarrow> (Inl e, w3)
                     | (Inr _, w3) \<Rightarrow>
                         (let inactive = (if upper (opt_reset_pol opts) = ''LOW'' then 1 else 0 :: nat)
                          in call (GpioSetStatus inactive) (gpio_set_status ops inactive) w3)))))"

text \<open>
  The loop shared, statement for statement, by \<^verbatim>\<open>incremental_mode\<close> and \<^verbatim>\<open>list_mode\<close>:
  for each rate, \<^verbatim>\<open>change_baudrate\<close>; if it returned true, \<^verbatim>\<open>reset_target\<close> and
  \<^verbatim>\<open>process_baudrate\<close>, and \<^verbatim>\<open>break\<close> if that returned a true value.
\<close>

fun sweep :: "'s hardware \<Rightarrow> options \<Rightarrow> int list \<Rightarrow> 's world \<Rightarrow> (error + unit) \<times> 's world" where
  "sweep ops opts [] w = (Inr (), w)"
| "sweep ops opts (baudrate # rest) w =
     (case change_baudrate ops baudrate w of
        (True, w1) \<Rightarrow>
          (case reset_target ops opts w1 of
             (Inl e, w2) \<Rightarrow> (Inl e, w2)
           | (Inr _, w2) \<Rightarrow>
               (case process_baudrate ops opts baudrate w2 of
                  (Inl e, w3) \<Rightarrow> (Inl e, w3)
                | (Inr r, w3) \<Rightarrow>
                    (if truthy r then (Inr (), w3) else sweep ops opts rest w3)))
      | (False, w1) \<Rightarrow> sweep ops opts rest w1)"

definition incremental_mode :: "'s hardware \<Rightarrow> options \<Rightarrow> 's world \<Rightarrow> (error + unit) \<times> 's world" where
  "incremental_mode ops opts w =
     (case py_range (opt_baudrate_min opts) (opt_baudrate_max opts) (opt_baudrate_inc opts) of
        Inl e \<Rightarrow> (Inl e, w)
      | Inr rates \<Rightarrow> sweep ops opts rates w)"

definition list_mode :: "'s hardware \<Rightarrow> options \<Rightarrow> 's world \<Rightarrow> (error + unit) \<times> 's world" where
  "list_mode ops opts w =
     (case int_all (str_split CHR '','' (opt_baudrate_list opts)) of
        Inl e \<Rightarrow> (Inl e, w)
      | Inr rates \<Rightarrow> sweep ops opts rates w)"

text \<open>
  \<^verbatim>\<open>run\<close>, from the point where the connection to the adapter exists. An exception of
  \<^verbatim>\<open>init\<close> or of the sweep is logged as an error and ends the run.
\<close>

definition run_body :: "'s hardware \<Rightarrow> options \<Rightarrow> 's world \<Rightarrow> (error + unit) \<times> 's world" where
  "run_body ops opts w =
     (case init ops opts w of
        (Inl e, w1) \<Rightarrow> (Inl e, w1)
      | (Inr _, w1) \<Rightarrow>
          (let w2 = emit (LogMessage HEADER PressCtrlCToCancel)
                      (emit (LogMessage HEADER StartingBaudrateDetection) w1)
           in if upper (opt_mode opts) = ''INCREMENTAL'' then incremental_mode ops opts w2
              else if upper (opt_mode opts) = ''LIST'' then list_mode ops opts w2
              else (Inr (), w2)))"

definition run :: "'s hardware \<Rightarrow> options \<Rightarrow> 's world \<Rightarrow> 's world" where
  "run ops opts w =
     (case check_options opts w of
        (False, w1) \<Rightarrow> w1
      | (True, w1) \<Rightarrow>
          (case run_body ops opts w1 of
             (Inl e, w2) \<Rightarrow> emit (LogError e) w2
           | (Inr _, w2) \<Rightarrow> w2))"

subsection \<open>Reading the trace\<close>

fun is_transmit :: "event \<Rightarrow> bool" where
  "is_transmit (UartTransmit bs) = True"
| "is_transmit ev = False"

fun is_read_one :: "event \<Rightarrow> bool" where
  "is_read_one (UartReceive n) = (n = 1)"
| "is_read_one ev = False"

fun is_configure :: "event \<Rightarrow> bool" where
  "is_configure (UartConfigure baudrate) = True"
| "is_configure ev = False"

fun is_print :: "event \<Rightarrow> bool" where
  "is_print (PrintResult baudrate ent hex) = True"
| "is_print ev = False"

text \<open>The calls that \<^verbatim>\<open>change_baudrate\<close> makes on the port for one rate.\<close>

fun is_reconfigure :: "int \<Rightarrow> event \<Rightarrow> bool" where
  "is_reconfigure baudrate SerialReadAll = True"
| "is_reconfigure baudrate (UartConfigure b) = (b = baudrate)"
| "is_reconfigure baudrate UartInWaiting = True"
| "is_reconfigure baudrate (UartReceive n) = True"
| "is_reconfigure baudrate ev = False"

definition transmits :: "event list \<Rightarrow> nat" where
  "transmits evs = length (filter is_transmit evs)"

definition reads :: "event list \<Rightarrow> nat" where
  "reads evs = length (filter is_read_one evs)"

text \<open>
  A port that answers every \<^verbatim>\<open>receive(1)\<close>, whenever it answers at all, with exactly one byte.
\<close>

definition one_byte_reads :: "'s hardware \<Rightarrow> bool" where
  "one_byte_reads ops =
     (\<forall>s. case fst (uart_receive ops 1 s) of Inl e \<Rightarrow> True | Inr bs \<Rightarrow> length bs = 1)"

subsection \<open>Simulated ports\<close>

text \<open>
  Concrete collaborators on which the model is run. The state of a simulated port counts
  the polling windows, the one-byte reads and the transmissions it has seen. Its behaviour
  is given by three parameters: whether a polling window sees data, what \<^verbatim>\<open>receive(1)\<close>
  returns, and at which rates \<^verbatim>\<open>configure\<close> succeeds.
\<close>

record port_state =
  polls :: nat
  one_reads :: nat
  sends :: nat

definition sim_port ::
  "(port_state \<Rightarrow> bool) \<Rightarrow> (port_state \<Rightarrow> byte list) \<Rightarrow> (int \<Rightarrow> bool) \<Rightarrow> port_state hardware" where
  "sim_port available answer accepts =
     \<lparr> serial_read_all = (\<lambda>s. (Inr (), s)),
       uart_create = (\<lambda>interface s. (Inr (), s)),
       uart_configure = (\<lambda>baudrate s.
          if accepts baudrate then (Inr (), s) else (Inl (TransportError ''configure''), s)),
       uart_in_waiting = (\<lambda>s. (Inr 0, s)),
       uart_receive = (\<lambda>n s.
          if n = 1 then (Inr (answer s), s\<lparr>one_reads := one_reads s + 1\<rparr>) else (Inr [], s)),
       uart_transmit = (\<lambda>bs s. (Inr (), s\<lparr>sends := sends s + 1\<rparr>)),
       poll_window = (\<lambda>s. (Inr (available s), s\<lparr>polls := polls s + 1\<rparr>)),
       gpio_create = (\<lambda>pin s. (Inr (), s)),
       gpio_set_output = (\<lambda>s. (Inr (), s)),
       gpio_set_status = (\<lambda>status s. (Inr (), s)) \<rparr>"

definition world0 :: "port_state world" where
  "world0 = \<lparr> hw = \<lparr> polls = 0, one_reads = 0, sends = 0 \<rparr>, reset_pin = None, trace = [] \<rparr>"

text \<open>The default values of the options, as the module declares them.\<close>

definition default_options :: options where
  "default_options =
     \<lparr> opt_uart_interface = 0,
       opt_mode = ''incremental'',
       opt_reset_pin = None,
       opt_trigger = False,
       opt_reset_pol = ''low'',
       opt_reset_hold = 1 / 10,
       opt_reset_delay = 5 / 10,
       opt_min_entropy = None,
       opt_baudrate_min = 300,
       opt_baudrate_max = 115200,
       opt_baudrate_inc = 300,
       opt_baudrate_list = ''9600,19200,38400,57600,115200'',
       opt_trigger_char = [0x0D, 0x0A] \<rparr>"

text \<open>A port that never has data.\<close>

definition silent_port :: "port_state hardware" where
  "silent_port = sim_port (\<lambda>s. False) (\<lambda>s. []) (\<lambda>baudrate. True)"

text \<open>A port that always has the byte \<open>0x41\<close> ready.\<close>

definition chatty_port :: "port_state hardware" where
  "chatty_port = sim_port (\<lambda>s. True) (\<lambda>s. [0x41]) (\<lambda>baudrate. True)"

text \<open>A port that has data only once two transmissions have reached it.\<close>

definition late_port :: "port_state hardware" where
  "late_port = sim_port (\<lambda>s. 2 \<le> sends s) (\<lambda>s. [0x41]) (\<lambda>baudrate. True)"

text \<open>A port that stalls once before each byte: every other polling window sees data.\<close>

definition stalling_port :: "port_state hardware" where
  "stalling_port = sim_port (\<lambda>s. odd (polls s)) (\<lambda>s. [0x41]) (\<lambda>baudrate. True)"

text \<open>A port whose first \<^verbatim>\<open>receive(1)\<close> returns no byte although data was announced.\<close>

definition short_read_port :: "port_state hardware" where
  "short_read_port =
     sim_port (\<lambda>s. True) (\<lambda>s. if one_reads s = 0 then [] else [0x41]) (\<lambda>baudrate. True)"

text \<open>A port on which \<^verbatim>\<open>configure\<close> raises at 9600 baud and works at every other rate.\<close>

definition flaky_port :: "port_state hardware" where
  "flaky_port = sim_port (\<lambda>s. True) (\<lambda>s. [0x41]) (\<lambda>baudrate. baudrate \<noteq> 9600)"

section \<open>Properties of the entropy scorer\<close>

lemma counter_incr_keys: "fst ` set (counter_incr b d) = insert b (fst ` set d)"
  by (induction b d rule: counter_incr.induct) auto

lemma counter_incr_distinct:
  "distinct (map fst d) \<Longrightarrow> distinct (map fst (counter_incr b d))"
proof (induction b d rule: counter_incr.induct)
  case (1 b)
  then show ?case by simp
next
  case (2 b k c kcs)
  have "fst ` set (counter_incr b kcs) = insert b (fst ` set kcs)"
    by (rule counter_incr_keys)
  with 2 show ?case by auto
qed

lemma counter_incr_map_of:
  "map_of (counter_incr b d) =
     (map_of d)(b \<mapsto> (case map_of d b of None \<Rightarrow> 1 | Some c \<Rightarrow> c + 1))"
  by (induction b d rule: counter_incr.induct) (auto simp: fun_eq_iff)

lemma Counter_fold_distinct:
  "distinct (map fst d) \<Longrightarrow> distinct (map fst (foldl (\<lambda>d b. counter_incr b d) d bs))"
  by (induction bs arbitrary: d) (simp_all add: counter_incr_distinct)

lemma Counter_fold_map_of:
  "map_of (foldl (\<lambda>d b. counter_incr b d) d bs) k =
     (if k \<in> dom (map_of d) \<union> set bs
      then Some (count_list bs k + (case map_of d k of None \<Rightarrow> 0 | Some c \<Rightarrow> c))
      else None)"
proof (induction bs arbitrary: d)
  case Nil
  then show ?case by (cases "map_of d k") auto
next
  case (Cons b bs)
  show ?case
    by (simp only: foldl_Cons Cons.IH)
      (auto simp: counter_incr_map_of dom_def split: option.splits)
qed

lemma Counter_distinct: "distinct (map fst (Counter bs))"
  using Counter_fold_distinct [of "[]" bs] by (simp add: Counter_def)

lemma Counter_map_of:
  "map_of (Counter bs) k = (if k \<in> set bs then Some (count_list bs k) else None)"
  using Counter_fold_map_of [of "[]" bs k] by (simp add: Counter_def)

lemma Counter_keys: "fst ` set (Counter bs) = set bs"
proof -
  have "fst ` set (Counter bs) = dom (map_of (Counter bs))"
    by (simp add: dom_map_of_conv_image_fst)
  also have "\<dots> = set bs"
    by (auto simp: dom_def Counter_map_of)
  finally show ?thesis .
qed

lemma Counter_entry:
  assumes "(k, c) \<in> set (Counter bs)"
  shows "c = count_list bs k \<and> k \<in> set bs"
proof -
  have "map_of (Counter bs) k = Some c"
    using assms Counter_distinct by simp
  then show ?thesis
    by (auto simp: Counter_map_of split: if_splits)
qed

lemma Counter_as_map:
  "set (Counter bs) = (\<lambda>k. (k, count_list bs k)) ` set bs"
proof (rule set_eqI)
  fix x :: "byte \<times> nat"
  obtain k c where x: "x = (k, c)" by (cases x)
  show "x \<in> set (Counter bs) \<longleftrightarrow> x \<in> (\<lambda>k. (k, count_list bs k)) ` set bs"
  proof
    assume "x \<in> set (Counter bs)"
    with x Counter_entry [of k c bs] show "x \<in> (\<lambda>k. (k, count_list bs k)) ` set bs"
      by auto
  next
    assume "x \<in> (\<lambda>k. (k, count_list bs k)) ` set bs"
    with x have k: "k \<in> set bs" and c: "c = count_list bs k" by auto
    then have "map_of (Counter bs) k = Some c" by (simp add: Counter_map_of)
    then show "x \<in> set (Counter bs)" using x by (auto dest: map_of_SomeD)
  qed
qed

text \<open>Sum of a function of the counts, over the dictionary's values.\<close>

lemma sum_list_counter_values:
  "sum_list (map f (counter_values (Counter bs))) = (\<Sum>k\<in>set bs. f (count_list bs k))"
proof -
  have d: "distinct (Counter bs)"
    using Counter_distinct [of bs] by (simp add: distinct_map)
  have "sum_list (map f (counter_values (Counter bs))) = sum_list (map (f \<circ> snd) (Counter bs))"
    by (simp add: counter_values_def comp_def)
  also have "\<dots> = sum (f \<circ> snd) (set (Counter bs))"
    using d by (rule sum_list_distinct_conv_sum_set)
  also have "\<dots> = sum (f \<circ> snd) ((\<lambda>k. (k, count_list bs k)) ` set bs)"
    by (simp add: Counter_as_map)
  also have "\<dots> = (\<Sum>k\<in>set bs. f (count_list bs k))"
    by (subst sum.reindex) (auto simp: inj_on_def)
  finally show ?thesis .
qed

lemma entropy_term_ok:
  assumes "0 < count" "0 < lns"
  shows "entropy_term count lns = Inr (real count / lns * log 2 (real count / lns))"
proof -
  have "0 < real count / lns" using assms by simp
  then have "\<not> real count / lns \<le> 0" by simp
  then show ?thesis
    using assms by (simp add: entropy_term_def py_truediv_def math_log_def log_def)
qed

lemma sum_terms_ok:
  assumes "\<forall>c\<in>set counts. 0 < c" "0 < lns"
  shows "sum_terms acc counts lns =
           Inr (acc + sum_list (map (\<lambda>c. real c / lns * log 2 (real c / lns)) counts))"
  using assms
  by (induction counts arbitrary: acc) (simp_all add: entropy_term_ok add.assoc)

lemma entropy_shannon:
  assumes "bs \<noteq> []"
  shows "entropy bs = Inr (shannon bs)"
proof -
  have pos: "\<forall>c\<in>set (counter_values (Counter bs)). 0 < c"
  proof
    fix c assume "c \<in> set (counter_values (Counter bs))"
    then obtain k where "(k, c) \<in> set (Counter bs)"
      by (auto simp: counter_values_def)
    then have "c = count_list bs k" "k \<in> set bs"
      using Counter_entry by blast+
    then show "0 < c" using count_list_0_iff [of bs k] by auto
  qed
  have len: "0 < real (length bs)" using assms by simp
  show ?thesis
    unfolding entropy_def Let_def shannon_def
    by (simp add: sum_terms_ok [OF pos len] sum_list_counter_values)
qed


lemma sum_count_list_set: "(\<Sum>v\<in>set bs. count_list bs v) = length bs"
  by (rule sum_count_set) simp_all

lemma sum_prob_set:
  assumes "bs \<noteq> []"
  shows "(\<Sum>v\<in>set bs. real (count_list bs v) / real (length bs)) = 1"
proof -
  have "(\<Sum>v\<in>set bs. real (count_list bs v) / real (length bs))
          = real (\<Sum>v\<in>set bs. count_list bs v) / real (length bs)"
    by (simp add: sum_divide_distrib)
  also have "\<dots> = 1" using assms by (simp add: sum_count_list_set)
  finally show ?thesis .
qed

lemma prob_pos:
  assumes "v \<in> set bs"
  shows "0 < real (count_list bs v) / real (length bs)"
proof -
  have "0 < count_list bs v" using assms count_list_0_iff [of bs v] by auto
  moreover have "0 < length bs" using assms by (cases bs) auto
  ultimately show ?thesis by simp
qed

lemma prob_le_one: "real (count_list bs v) / real (length bs) \<le> 1"
proof -
  have "count_list bs v \<le> length bs" by (rule count_le_length)
  then show ?thesis by (cases "length bs = 0") (simp_all add: divide_le_eq)
qed

lemma shannon_nonneg: "0 \<le> shannon bs"
proof -
  have "(\<Sum>v\<in>set bs. real (count_list bs v) / real (length bs)
            * log 2 (real (count_list bs v) / real (length bs))) \<le> 0"
  proof (rule sum_nonpos)
    fix v assume v: "v \<in> set bs"
    let ?p = "real (count_list bs v) / real (length bs)"
    have "0 < ?p" using v by (rule prob_pos)
    moreover have "?p \<le> 1" by (rule prob_le_one)
    ultimately have lg: "log 2 ?p \<le> 0" by simp
    have "0 \<le> ?p" using \<open>0 < ?p\<close> by (rule less_imp_le)
    then show "?p * log 2 ?p \<le> 0" using lg by (rule mult_nonneg_nonpos)
  qed
  then show ?thesis by (simp add: shannon_def)
qed

text \<open>Gibbs' inequality against the uniform distribution on the distinct values.\<close>

lemma gibbs_term:
  fixes p k :: real
  assumes "0 < p" "0 < k"
  shows "- (p * ln p) - p * ln k \<le> 1 / k - p"
proof -
  have kp: "0 < k * p" using assms(2,1) by (rule mult_pos_pos)
  then have "0 < 1 / (k * p)" by (simp only: zero_less_divide_1_iff)
  then have "ln (1 / (k * p)) \<le> 1 / (k * p) - 1" by (rule ln_le_minus_one)
  then have "p * ln (1 / (k * p)) \<le> p * (1 / (k * p) - 1)"
    using assms(1) by (simp only: mult_le_cancel_left_pos)
  also have "\<dots> = 1 / k - p" using assms by (simp add: field_simps)
  finally have "p * ln (1 / (k * p)) \<le> 1 / k - p" .
  moreover have "ln (1 / (k * p)) = - ln k - ln p"
    using assms by (simp add: ln_div ln_mult)
  ultimately show ?thesis by (simp add: algebra_simps)
qed

lemma shannon_le_log_card:
  assumes "bs \<noteq> []"
  shows "shannon bs \<le> log 2 (real (card (set bs)))"
proof -
  let ?S = "set bs"
  define k where "k = real (card ?S)"
  define p where "p = (\<lambda>v. real (count_list bs v) / real (length bs))"
  have kpos: "0 < k" using assms by (simp add: k_def card_gt_0_iff)
  have ppos: "0 < p v" if "v \<in> ?S" for v
    unfolding p_def using that by (rule prob_pos)
  have psum: "(\<Sum>v\<in>?S. p v) = 1"
    unfolding p_def using assms by (rule sum_prob_set)
  have "(\<Sum>v\<in>?S. - (p v * ln (p v)) - p v * ln k) \<le> (\<Sum>v\<in>?S. 1 / k - p v)"
    by (rule sum_mono) (simp only: gibbs_term ppos kpos)
  also have "\<dots> = (\<Sum>v\<in>?S. 1 / k) - (\<Sum>v\<in>?S. p v)"
    by (rule sum_subtractf)
  also have "\<dots> = 0"
    using kpos psum assms by (simp add: k_def)
  finally have le0: "(\<Sum>v\<in>?S. - (p v * ln (p v)) - p v * ln k) \<le> 0" .
  have "(\<Sum>v\<in>?S. - (p v * ln (p v)) - p v * ln k)
          = - (\<Sum>v\<in>?S. p v * ln (p v)) - (\<Sum>v\<in>?S. p v * ln k)"
    by (simp add: sum_subtractf sum_negf)
  also have "(\<Sum>v\<in>?S. p v * ln k) = ln k"
    using psum by (simp add: sum_distrib_right [symmetric])
  finally have "- (\<Sum>v\<in>?S. p v * ln (p v)) \<le> ln k"
    using le0 by simp
  then have "- (\<Sum>v\<in>?S. p v * ln (p v)) / ln 2 \<le> ln k / ln 2"
    by (rule divide_right_mono) simp
  moreover have "shannon bs = - (\<Sum>v\<in>?S. p v * ln (p v)) / ln 2"
    by (simp add: shannon_def p_def log_def sum_divide_distrib)
  ultimately show ?thesis by (simp add: log_def k_def)
qed

lemma card_bytes_le: "card (set (bs :: byte list)) \<le> 256"
proof -
  have "card (set bs) \<le> card (UNIV :: byte set)"
    by (rule card_mono) simp_all
  then show ?thesis by (simp add: card_word)
qed

lemma shannon_le_8:
  assumes "bs \<noteq> []"
  shows "shannon bs \<le> 8"
proof -
  have pos: "0 < card (set bs)" using assms by (simp add: card_gt_0_iff)
  have "shannon bs \<le> log 2 (real (card (set bs)))"
    using assms by (rule shannon_le_log_card)
  also have "\<dots> \<le> log 2 (real (256::nat))"
    using pos card_bytes_le [of bs] by (subst log_le_cancel_iff) simp_all
  also have "\<dots> = log 2 (2 powr 8)" by simp
  also have "\<dots> = 8" by (subst log_powr_cancel) simp_all
  finally show ?thesis .
qed

lemma shannon_uniform:
  assumes "bs \<noteq> []" and "\<forall>u\<in>set bs. \<forall>v\<in>set bs. count_list bs u = count_list bs v"
  shows "shannon bs = log 2 (real (card (set bs)))"
proof -
  let ?S = "set bs"
  define k where "k = card ?S"
  obtain w where w: "w \<in> ?S" using assms(1) by (cases bs) auto
  define c where "c = count_list bs w"
  have eq: "count_list bs v = c" if "v \<in> ?S" for v
    unfolding c_def using assms(2) that w by blast
  have cpos: "0 < c" unfolding c_def using w count_list_0_iff [of bs w] by auto
  have kpos: "0 < k" using assms(1) by (simp add: k_def card_gt_0_iff)
  have "length bs = (\<Sum>v\<in>?S. count_list bs v)" by (simp add: sum_count_list_set)
  also have "\<dots> = (\<Sum>v\<in>?S. c)" by (rule sum.cong) (simp_all add: eq)
  also have "\<dots> = k * c" by (simp add: k_def)
  finally have len: "length bs = k * c" .
  have p: "real (count_list bs v) / real (length bs) = 1 / real k" if "v \<in> ?S" for v
    using eq [OF that] len cpos by simp
  have "shannon bs = - (\<Sum>v\<in>?S. 1 / real k * log 2 (1 / real k))"
    unfolding shannon_def by (simp only: p cong: sum.cong)
  also have "\<dots> = - (real k * (1 / real k * log 2 (1 / real k)))"
    by (simp add: k_def)
  also have "\<dots> = - log 2 (1 / real k)" using kpos by simp
  also have "\<dots> = log 2 (real k)" using kpos by (simp add: log_divide)
  finally show ?thesis by (simp add: k_def)
qed

lemma entropy_single_value:
  assumes "bs \<noteq> []" and "set bs = {v}"
  shows "entropy bs = Inr 0"
proof -
  have "\<forall>u\<in>set bs. \<forall>v\<in>set bs. count_list bs u = count_list bs v"
    unfolding assms(2) by simp
  with assms(1) have "shannon bs = log 2 (real (card (set bs)))"
    by (rule shannon_uniform)
  also have "\<dots> = 0" unfolding assms(2) by simp
  finally show ?thesis using assms(1) by (simp add: entropy_shannon)
qed

lemma entropy_returns: "\<exists>e. entropy bs = Inr e"
proof (cases "bs = []")
  case True
  then show ?thesis by (simp add: entropy_def Counter_def counter_values_def)
next
  case False
  then show ?thesis by (simp add: entropy_shannon)
qed

text \<open>
  Claim C10. The entropy function is total: on every byte sequence it returns a value and
  raises nothing. On the empty sequence it returns 0, because the sum ranges over no
  byte count and so the division by the zero length is never executed.
\<close>

theorem entropy_total:
  "entropy [] = Inr 0 \<and> (\<exists>e. entropy b_buff = Inr e)"
proof
  show "entropy [] = Inr 0"
    by (simp add: entropy_def Counter_def counter_values_def)
  show "\<exists>e. entropy b_buff = Inr e"
  proof (cases "b_buff = []")
    case True
    then show ?thesis by (simp add: entropy_def Counter_def counter_values_def)
  next
    case False
    then show ?thesis by (simp add: entropy_shannon)
  qed
qed

theorem entropy_total_witness:
  "entropy [] = Inr 0 \<and> (\<exists>e. entropy [0x41, 0x42, 0x41] = Inr e)"
  by (rule entropy_total [of "[0x41, 0x42, 0x41]"])

section \<open>The sampling loop\<close>

lemma trace_call: "trace (snd (call ev operation w)) = trace w @ [ev]"
  by (simp add: call_def split: prod.splits)

lemma trace_emit: "trace (emit ev w) = trace w @ [ev]"
  by (simp add: emit_def)

lemma call_eq_trace: "call ev operation w = (r, w1) \<Longrightarrow> trace w1 = trace w @ [ev]"
  using trace_call [of ev operation w] by simp

lemma transmits_append: "transmits (xs @ ys) = transmits xs + transmits ys"
  by (simp add: transmits_def)

lemma sleep_trace:
  "sleep secs w = (r, w1) \<Longrightarrow> trace w1 = trace w \<or> trace w1 = trace w @ [Sleep secs]"
  by (auto simp: sleep_def trace_emit split: if_splits)

lemma trigger_device_transmits:
  assumes "trigger_device ops opts w = (r, w1)"
  shows "transmits (trace w1) = transmits (trace w) + 1"
    and "reads (trace w1) = reads (trace w)"
proof -
  obtain r0 w0 where c: "call (UartTransmit (opt_trigger_char opts))
      (uart_transmit ops (opt_trigger_char opts)) (emit (LogMessage INFO TriggeringTheDevice) w) = (r0, w0)"
    by (cases "call (UartTransmit (opt_trigger_char opts))
      (uart_transmit ops (opt_trigger_char opts)) (emit (LogMessage INFO TriggeringTheDevice) w)")
  have t0: "trace w0 = trace w @ [LogMessage INFO TriggeringTheDevice, UartTransmit (opt_trigger_char opts)]"
    using call_eq_trace [OF c] by (simp add: trace_emit)
  have "trace w1 = trace w0 \<or> trace w1 = trace w0 @ [Sleep (2 / 10)]"
    using assms c sleep_trace [of "2 / 10" w0 r w1]
    by (cases r0) (auto simp: trigger_device_def)
  then show "transmits (trace w1) = transmits (trace w) + 1"
    and "reads (trace w1) = reads (trace w)"
    using t0 by (auto simp: transmits_def reads_def)
qed


lemma wait_bytes_trace: "wait_bytes ops w = (r, w1) \<Longrightarrow> trace w1 = trace w @ [PollWindow]"
  unfolding wait_bytes_def by (rule call_eq_trace)

text \<open>The seven ways through one iteration of the loop, as equations.\<close>

lemma loop_done:
  "\<not> count < threshold \<Longrightarrow>
   process_loop ops opts b count loop rb w = (Inr (Some rb), w)"
  by (subst process_loop.simps) simp

lemma loop_poll_error:
  "count < threshold \<Longrightarrow> wait_bytes ops w = (Inl e, w1) \<Longrightarrow>
   process_loop ops opts b count loop rb w = (Inl e, w1)"
  by (subst process_loop.simps) simp

lemma loop_read:
  "count < threshold \<Longrightarrow> wait_bytes ops w = (Inr True, w1) \<Longrightarrow>
   call (UartReceive 1) (uart_receive ops 1) w1 = (Inr tmp, w2) \<Longrightarrow>
   process_loop ops opts b count loop rb w =
     process_loop ops opts b (count + 1) loop (rb @ tmp) (emit (ProgressStatus tmp) w2)"
  by (subst process_loop.simps) simp

lemma loop_read_error:
  "count < threshold \<Longrightarrow> wait_bytes ops w = (Inr True, w1) \<Longrightarrow>
   call (UartReceive 1) (uart_receive ops 1) w1 = (Inl e, w2) \<Longrightarrow>
   process_loop ops opts b count loop rb w = (Inl e, w2)"
  by (subst process_loop.simps) simp

lemma loop_trigger:
  "count < threshold \<Longrightarrow> wait_bytes ops w = (Inr False, w1) \<Longrightarrow>
   opt_trigger opts \<and> loop < 3 \<Longrightarrow> trigger_device ops opts w1 = (Inr u, w2) \<Longrightarrow>
   process_loop ops opts b count loop rb w = process_loop ops opts b count (loop + 1) rb w2"
  by (subst process_loop.simps) simp

lemma loop_trigger_error:
  "count < threshold \<Longrightarrow> wait_bytes ops w = (Inr False, w1) \<Longrightarrow>
   opt_trigger opts \<and> loop < 3 \<Longrightarrow> trigger_device ops opts w1 = (Inl e, w2) \<Longrightarrow>
   process_loop ops opts b count loop rb w = (Inl e, w2)"
  by (subst process_loop.simps) simp

lemma loop_timeout:
  "count < threshold \<Longrightarrow> wait_bytes ops w = (Inr False, w1) \<Longrightarrow>
   \<not> (opt_trigger opts \<and> loop < 3) \<Longrightarrow>
   process_loop ops opts b count loop rb w =
     (Inr None, emit (LogNoData b) (emit ProgressStop w1))"
  by (subst process_loop.simps) auto

text \<open>
  An invariant rule for the loop: what holds of the loop variables and the world at the
  start and is kept by a read and by a trigger, holds where the loop is left.
\<close>

lemma process_loop_rule:
  assumes start: "I count loop rb w"
    and read: "\<And>count loop rb w w1 tmp w2.
        \<lbrakk>I count loop rb w; count < threshold; wait_bytes ops w = (Inr True, w1);
         call (UartReceive 1) (uart_receive ops 1) w1 = (Inr tmp, w2)\<rbrakk>
        \<Longrightarrow> I (count + 1) loop (rb @ tmp) (emit (ProgressStatus tmp) w2)"
    and trigger: "\<And>count loop rb w w1 u w2.
        \<lbrakk>I count loop rb w; count < threshold; wait_bytes ops w = (Inr False, w1);
         opt_trigger opts; loop < 3; trigger_device ops opts w1 = (Inr u, w2)\<rbrakk>
        \<Longrightarrow> I count (loop + 1) rb w2"
    and finished: "\<And>count loop rb w.
        \<lbrakk>I count loop rb w; \<not> count < threshold\<rbrakk> \<Longrightarrow> Q (Inr (Some rb)) w"
    and timeout: "\<And>count loop rb w w1.
        \<lbrakk>I count loop rb w; count < threshold; wait_bytes ops w = (Inr False, w1);
         \<not> (opt_trigger opts \<and> loop < 3)\<rbrakk>
        \<Longrightarrow> Q (Inr None) (emit (LogNoData b) (emit ProgressStop w1))"
    and poll_error: "\<And>count loop rb w e w1.
        \<lbrakk>I count loop rb w; count < threshold; wait_bytes ops w = (Inl e, w1)\<rbrakk>
        \<Longrightarrow> Q (Inl e) w1"
    and read_error: "\<And>count loop rb w w1 e w2.
        \<lbrakk>I count loop rb w; count < threshold; wait_bytes ops w = (Inr True, w1);
         call (UartReceive 1) (uart_receive ops 1) w1 = (Inl e, w2)\<rbrakk>
        \<Longrightarrow> Q (Inl e) w2"
    and trigger_error: "\<And>count loop rb w w1 e w2.
        \<lbrakk>I count loop rb w; count < threshold; wait_bytes ops w = (Inr False, w1);
         opt_trigger opts; loop < 3; trigger_device ops opts w1 = (Inl e, w2)\<rbrakk>
        \<Longrightarrow> Q (Inl e) w2"
  shows "Q (fst (process_loop ops opts b count loop rb w))
           (snd (process_loop ops opts b count loop rb w))"
  using start
proof (induction "(threshold - count) + (3 - loop)" arbitrary: count loop rb w rule: less_induct)
  case less
  note inv = \<open>I count loop rb w\<close>
  show ?case
  proof (cases "count < threshold")
    case False
    have "Q (Inr (Some rb)) w" using inv False by (rule finished)
    then show ?thesis by (simp add: loop_done [OF False])
  next
    case running: True
    obtain x w1 where wb: "wait_bytes ops w = (x, w1)" by (cases "wait_bytes ops w")
    show ?thesis
    proof (cases x)
      case (Inl e)
      have wb': "wait_bytes ops w = (Inl e, w1)" using wb Inl by simp
      have "Q (Inl e) w1" using inv running wb' by (rule poll_error)
      then show ?thesis by (simp add: loop_poll_error [OF running wb'])
    next
      case (Inr avail)
      show ?thesis
      proof (cases avail)
        case True
        have wb': "wait_bytes ops w = (Inr True, w1)" using wb Inr True by simp
        obtain y w2 where rc: "call (UartReceive 1) (uart_receive ops 1) w1 = (y, w2)"
          by (cases "call (UartReceive 1) (uart_receive ops 1) w1")
        show ?thesis
        proof (cases y)
          case (Inl e)
          have rc': "call (UartReceive 1) (uart_receive ops 1) w1 = (Inl e, w2)"
            using rc Inl by simp
          have "Q (Inl e) w2" using inv running wb' rc' by (rule read_error)
          then show ?thesis by (simp add: loop_read_error [OF running wb' rc'])
        next
          case tmp: (Inr tmp)
          have rc': "call (UartReceive 1) (uart_receive ops 1) w1 = (Inr tmp, w2)"
            using rc tmp by simp
          have smaller: "(threshold - (count + 1)) + (3 - loop) < (threshold - count) + (3 - loop)"
            using running by simp
          have "I (count + 1) loop (rb @ tmp) (emit (ProgressStatus tmp) w2)"
            using inv running wb' rc' by (rule read)
          with smaller
          have "Q (fst (process_loop ops opts b (count + 1) loop (rb @ tmp)
                            (emit (ProgressStatus tmp) w2)))
                  (snd (process_loop ops opts b (count + 1) loop (rb @ tmp)
                            (emit (ProgressStatus tmp) w2)))"
            by (rule less.hyps)
          then show ?thesis by (simp add: loop_read [OF running wb' rc'])
        qed
      next
        case False
        have wb': "wait_bytes ops w = (Inr False, w1)" using wb Inr False by simp
        show ?thesis
        proof (cases "opt_trigger opts \<and> loop < 3")
          case spent: False
          have "Q (Inr None) (emit (LogNoData b) (emit ProgressStop w1))"
            using inv running wb' spent by (rule timeout)
          then show ?thesis by (simp add: loop_timeout [OF running wb' spent])
        next
          case budget: True
          then have on: "opt_trigger opts" and left: "loop < 3" by simp_all
          obtain y w2 where tr: "trigger_device ops opts w1 = (y, w2)"
            by (cases "trigger_device ops opts w1")
          show ?thesis
          proof (cases y)
            case (Inl e)
            have tr': "trigger_device ops opts w1 = (Inl e, w2)" using tr Inl by simp
            have "Q (Inl e) w2"
              using inv running wb' on left tr' by (rule trigger_error)
            then show ?thesis by (simp add: loop_trigger_error [OF running wb' budget tr'])
          next
            case u: (Inr u)
            have tr': "trigger_device ops opts w1 = (Inr u, w2)" using tr u by simp
            have smaller: "(threshold - count) + (3 - (loop + 1)) < (threshold - count) + (3 - loop)"
              using left by simp
            have "I count (loop + 1) rb w2"
              using inv running wb' on left tr' by (rule trigger)
            with smaller
            have "Q (fst (process_loop ops opts b count (loop + 1) rb w2))
                    (snd (process_loop ops opts b count (loop + 1) rb w2))"
              by (rule less.hyps)
            then show ?thesis by (simp add: loop_trigger [OF running wb' budget tr'])
          qed
        qed
      qed
    qed
  qed
qed

text \<open>At most \<open>3 - loop\<close> further transmissions, whatever is read in between.\<close>

lemma process_loop_transmits:
  "transmits (trace (snd (process_loop ops opts b count loop rb w)))
     \<le> transmits (trace w) + (3 - loop)"
proof (rule process_loop_rule
    [where I = "\<lambda>c l r v. transmits (trace v) + (3 - l) \<le> transmits (trace w) + (3 - loop)"
       and Q = "\<lambda>r v. transmits (trace v) \<le> transmits (trace w) + (3 - loop)"])
  show "transmits (trace w) + (3 - loop) \<le> transmits (trace w) + (3 - loop)" by simp
next
  fix c l r v w1 tmp w2
  assume "transmits (trace v) + (3 - l) \<le> transmits (trace w) + (3 - loop)"
    and "wait_bytes ops v = (Inr True, w1)"
    and "call (UartReceive 1) (uart_receive ops 1) w1 = (Inr tmp, w2)"
  then show "transmits (trace (emit (ProgressStatus tmp) w2)) + (3 - l)
               \<le> transmits (trace w) + (3 - loop)"
    by (simp add: trace_emit transmits_append wait_bytes_trace call_eq_trace transmits_def)
next
  fix c l r v w1 u w2
  assume "transmits (trace v) + (3 - l) \<le> transmits (trace w) + (3 - loop)"
    and "wait_bytes ops v = (Inr False, w1)" and "l < 3"
    and "trigger_device ops opts w1 = (Inr u, w2)"
  then show "transmits (trace w2) + (3 - (l + 1)) \<le> transmits (trace w) + (3 - loop)"
    using trigger_device_transmits(1) [of ops opts w1 "Inr u" w2]
    by (simp add: wait_bytes_trace transmits_def)
next
  fix c l r v
  assume "transmits (trace v) + (3 - l) \<le> transmits (trace w) + (3 - loop)"
  then show "transmits (trace v) \<le> transmits (trace w) + (3 - loop)" by simp
next
  fix c l r v w1
  assume "transmits (trace v) + (3 - l) \<le> transmits (trace w) + (3 - loop)"
    and "wait_bytes ops v = (Inr False, w1)"
  then show "transmits (trace (emit (LogNoData b) (emit ProgressStop w1)))
               \<le> transmits (trace w) + (3 - loop)"
    by (simp add: trace_emit wait_bytes_trace transmits_def)
next
  fix c l r v e w1
  assume "transmits (trace v) + (3 - l) \<le> transmits (trace w) + (3 - loop)"
    and "wait_bytes ops v = (Inl e, w1)"
  then show "transmits (trace w1) \<le> transmits (trace w) + (3 - loop)"
    by (simp add: wait_bytes_trace transmits_def)
next
  fix c l r v w1 e w2
  assume "transmits (trace v) + (3 - l) \<le> transmits (trace w) + (3 - loop)"
    and "wait_bytes ops v = (Inr True, w1)"
    and "call (UartReceive 1) (uart_receive ops 1) w1 = (Inl e, w2)"
  then show "transmits (trace w2) \<le> transmits (trace w) + (3 - loop)"
    by (simp add: wait_bytes_trace call_eq_trace transmits_def)
next
  fix c l r v w1 e w2
  assume "transmits (trace v) + (3 - l) \<le> transmits (trace w) + (3 - loop)"
    and "wait_bytes ops v = (Inr False, w1)" and "l < 3"
    and "trigger_device ops opts w1 = (Inl e, w2)"
  then show "transmits (trace w2) \<le> transmits (trace w) + (3 - loop)"
    using trigger_device_transmits(1) [of ops opts w1 "Inl e" w2]
    by (simp add: wait_bytes_trace transmits_def)
qed


lemma trigger_device_reads:
  "trigger_device ops opts w = (r, w1) \<Longrightarrow> reads (trace w1) = reads (trace w)"
  by (rule trigger_device_transmits(2))

text \<open>A completed loop has made \<open>threshold - count\<close> one-byte reads.\<close>

lemma process_loop_reads:
  assumes "process_loop ops opts b count loop rb w = (Inr (Some sample), w')"
  shows "reads (trace w') = reads (trace w) + (threshold - count)"
proof -
  let ?I = "\<lambda>c (l::nat) (r::byte list) v.
              reads (trace v) + (threshold - c) = reads (trace w) + (threshold - count)"
  let ?Q = "\<lambda>r v. (\<exists>s. r = Inr (Some s))
              \<longrightarrow> reads (trace v) = reads (trace w) + (threshold - count)"
  have "?Q (fst (process_loop ops opts b count loop rb w))
           (snd (process_loop ops opts b count loop rb w))"
  proof (rule process_loop_rule [where I = ?I and Q = ?Q])
    show "?I count loop rb w" by simp
  next
    fix c l r v w1 tmp w2
    assume "?I c l r v" and "c < threshold" and "wait_bytes ops v = (Inr True, w1)"
      and "call (UartReceive 1) (uart_receive ops 1) w1 = (Inr tmp, w2)"
    then show "?I (c + 1) l (r @ tmp) (emit (ProgressStatus tmp) w2)"
      by (simp add: trace_emit wait_bytes_trace call_eq_trace reads_def)
  next
    fix c l r v w1 u w2
    assume "?I c l r v" and "wait_bytes ops v = (Inr False, w1)"
      and "trigger_device ops opts w1 = (Inr u, w2)"
    then show "?I c (l + 1) r w2"
      using trigger_device_reads [of ops opts w1 "Inr u" w2]
      by (simp add: wait_bytes_trace reads_def)
  next
    fix c l r v
    assume "?I c l r v" and "\<not> c < threshold"
    then show "?Q (Inr (Some r)) v" by simp
  qed (simp_all (no_asm))
  with assms show ?thesis by simp
qed

lemma one_byte_reads_call:
  assumes "one_byte_reads ops"
    and "call (UartReceive 1) (uart_receive ops 1) w = (Inr tmp, w1)"
  shows "length tmp = 1"
proof -
  have "fst (uart_receive ops 1 (hw w)) = Inr tmp"
    using assms(2) by (auto simp: call_def split: prod.splits)
  moreover have "case fst (uart_receive ops 1 (hw w)) of
                   Inl e \<Rightarrow> True | Inr bs \<Rightarrow> length bs = 1"
    using assms(1) unfolding one_byte_reads_def by (rule spec)
  ultimately show ?thesis by simp
qed

text \<open>The sample of a completed loop is what was there before, followed by the reads.\<close>

lemma process_loop_sample_length:
  assumes "one_byte_reads ops"
    and "process_loop ops opts b count loop rb w = (Inr (Some sample), w')"
  shows "length sample = length rb + (threshold - count)"
proof -
  let ?I = "\<lambda>c (l::nat) (r::byte list) (v::'a world).
              length r + (threshold - c) = length rb + (threshold - count)"
  let ?Q = "\<lambda>r (v::'a world). \<forall>s. r = Inr (Some s)
              \<longrightarrow> length s = length rb + (threshold - count)"
  have "?Q (fst (process_loop ops opts b count loop rb w))
           (snd (process_loop ops opts b count loop rb w))"
  proof (rule process_loop_rule [where I = ?I and Q = ?Q])
    show "?I count loop rb w" by simp
  next
    fix c l r v w1 tmp w2
    assume "?I c l r v" and "c < threshold"
      and "call (UartReceive 1) (uart_receive ops 1) w1 = (Inr tmp, w2)"
    then show "?I (c + 1) l (r @ tmp) (emit (ProgressStatus tmp) w2)"
      using one_byte_reads_call [OF assms(1), of w1 tmp w2] by simp
  next
    fix c l r v
    assume "?I c l r v" and "\<not> c < threshold"
    then show "?Q (Inr (Some r)) v" by simp
  qed (simp_all (no_asm))
  with assms(2) show ?thesis by simp
qed

section \<open>Sampling one candidate rate\<close>

text \<open>The definitions to unfold when the model is run on a simulated port.\<close>

lemmas sim_defs = wait_bytes_def call_def emit_def sim_port_def threshold_def world0_def
  default_options_def trigger_device_def sleep_def

lemma print_result_trace:
  "trace (print_result baudrate b_buff ent w) =
     trace w @ [PrintResult baudrate ent (bytearray_to_hex_repr b_buff)]"
  by (simp add: print_result_def trace_emit)

text \<open>What \<^verbatim>\<open>process_baudrate\<close> does once the loop has handed over a sample.\<close>

lemma process_baudrate_completed:
  assumes "process_loop ops opts baudrate 0 0 [] (emit ProgressStart w) = (Inr (Some sample), w1)"
    and "entropy sample = Inr e"
  shows "process_baudrate ops opts baudrate w =
           (Inr None,
            if (case opt_min_entropy opts of None \<Rightarrow> True | Some m \<Rightarrow> m \<le> e)
            then print_result baudrate sample e w1 else w1)"
  using assms by (simp add: process_baudrate_def split: option.splits)

lemma process_baudrate_timeout:
  assumes "process_loop ops opts baudrate 0 0 [] (emit ProgressStart w) = (Inr None, w1)"
  shows "process_baudrate ops opts baudrate w = (Inr (Some False), w1)"
  using assms by (simp add: process_baudrate_def)

lemma process_baudrate_error:
  assumes "process_loop ops opts baudrate 0 0 [] (emit ProgressStart w) = (Inl err, w1)"
  shows "process_baudrate ops opts baudrate w = (Inl err, w1)"
  using assms by (simp add: process_baudrate_def)

text \<open>No path through \<^verbatim>\<open>process_baudrate\<close> returns a true value.\<close>

lemma process_baudrate_never_truthy:
  assumes "process_baudrate ops opts baudrate w = (Inr r, w')"
  shows "\<not> truthy r"
proof -
  obtain x w1 where l: "process_loop ops opts baudrate 0 0 [] (emit ProgressStart w) = (x, w1)"
    by (cases "process_loop ops opts baudrate 0 0 [] (emit ProgressStart w)")
  obtain e where e: "\<And>s. x = Inr (Some s) \<Longrightarrow> entropy s = Inr (e s)"
    using entropy_returns by metis
  show ?thesis
  proof (cases x)
    case (Inl err)
    with l assms show ?thesis by (simp add: process_baudrate_error)
  next
    case (Inr res)
    show ?thesis
    proof (cases res)
      case None
      with l Inr assms show ?thesis by (auto simp: process_baudrate_timeout truthy_def)
    next
      case (Some s)
      with l Inr assms e [of s] show ?thesis
        by (auto simp: process_baudrate_completed truthy_def)
    qed
  qed
qed

lemma process_baudrate_transmits:
  "transmits (trace (snd (process_baudrate ops opts baudrate w))) \<le> transmits (trace w) + 3"
proof -
  obtain x w1 where l: "process_loop ops opts baudrate 0 0 [] (emit ProgressStart w) = (x, w1)"
    by (cases "process_loop ops opts baudrate 0 0 [] (emit ProgressStart w)")
  have "transmits (trace w1) \<le> transmits (trace (emit ProgressStart w)) + (3 - 0)"
    using process_loop_transmits [of ops opts baudrate 0 0 "[]" "emit ProgressStart w"] l
    by simp
  then have w1: "transmits (trace w1) \<le> transmits (trace w) + 3"
    by (simp add: trace_emit transmits_def)
  show ?thesis
  proof (cases x)
    case (Inl err)
    with l w1 show ?thesis by (simp add: process_baudrate_error)
  next
    case (Inr res)
    show ?thesis
    proof (cases res)
      case None
      with l Inr w1 show ?thesis by (simp add: process_baudrate_timeout)
    next
      case (Some s)
      obtain e where "entropy s = Inr e" using entropy_returns by blast
      with l Inr Some w1 show ?thesis
        by (simp add: process_baudrate_completed print_result_trace transmits_def)
    qed
  qed
qed

subsection \<open>Runs of the loop on simulated ports\<close>

lemma late_port_loop:
  "process_loop late_port (default_options\<lparr>opt_trigger := True\<rparr>) 9600 0 0 []
     (emit ProgressStart world0) =
   (Inr (Some [0x41, 0x41, 0x41, 0x41, 0x41, 0x41, 0x41, 0x41, 0x41, 0x41]),
    \<lparr>hw = \<lparr>polls = 12, one_reads = 10, sends = 2\<rparr>, reset_pin = None,
     trace =
       [ProgressStart,
        PollWindow, LogMessage INFO TriggeringTheDevice, UartTransmit [0x0D, 0x0A], Sleep (2 / 10),
        PollWindow, LogMessage INFO TriggeringTheDevice, UartTransmit [0x0D, 0x0A], Sleep (2 / 10),
        PollWindow, UartReceive 1, ProgressStatus [0x41],
        PollWindow, UartReceive 1, ProgressStatus [0x41],
        PollWindow, UartReceive 1, ProgressStatus [0x41],
        PollWindow, UartReceive 1, ProgressStatus [0x41],
        PollWindow, UartReceive 1, ProgressStatus [0x41],
        PollWindow, UartReceive 1, ProgressStatus [0x41],
        PollWindow, UartReceive 1, ProgressStatus [0x41],
        PollWindow, UartReceive 1, ProgressStatus [0x41],
        PollWindow, UartReceive 1, ProgressStatus [0x41],
        PollWindow, UartReceive 1, ProgressStatus [0x41]]\<rparr>)"
  by (simp add: process_loop.simps sim_defs late_port_def)

lemma entropy_ten_A: "entropy [0x41, 0x41, 0x41, 0x41, 0x41, 0x41, 0x41, 0x41, 0x41, 0x41] = Inr 0"
  by (rule entropy_single_value [where v = "0x41"]) simp_all

lemma chatty_port_loop:
  "process_loop chatty_port opts baudrate 0 0 [] (emit ProgressStart world0) =
   (Inr (Some [0x41, 0x41, 0x41, 0x41, 0x41, 0x41, 0x41, 0x41, 0x41, 0x41]),
    \<lparr>hw = \<lparr>polls = 10, one_reads = 10, sends = 0\<rparr>, reset_pin = None,
     trace =
       [ProgressStart,
        PollWindow, UartReceive 1, ProgressStatus [0x41],
        PollWindow, UartReceive 1, ProgressStatus [0x41],
        PollWindow, UartReceive 1, ProgressStatus [0x41],
        PollWindow, UartReceive 1, ProgressStatus [0x41],
        PollWindow, UartReceive 1, ProgressStatus [0x41],
        PollWindow, UartReceive 1, ProgressStatus [0x41],
        PollWindow, UartReceive 1, ProgressStatus [0x41],
        PollWindow, UartReceive 1, ProgressStatus [0x41],
        PollWindow, UartReceive 1, ProgressStatus [0x41],
        PollWindow, UartReceive 1, ProgressStatus [0x41]]\<rparr>)"
  by (simp add: process_loop.simps sim_defs chatty_port_def)

section \<open>The sweep over the candidate rates\<close>

lemma parse_list: "int_all (str_split CHR '','' ''9600,19200'') = Inr [9600, 19200]"
  by code_simp

lemma parse_bad: "int_all (str_split CHR '','' ''9600,abc'') = Inl ValueError"
  by code_simp

lemma range_two: "py_range 9600 20000 9600 = Inr [9600, 19200]"
  by (simp add: py_range_def range_up.simps)

lemma range_three: "py_range 300 1200 300 = Inr [300, 600, 900]"
  by (simp add: py_range_def range_up.simps)

lemma change_baudrate_failed:
  assumes "change_baudrate ops baudrate w = (False, w1)"
  shows "\<exists>err evs. trace w1 = trace w @ evs @ [LogError err]
           \<and> (\<forall>ev\<in>set evs. is_reconfigure baudrate ev)"
proof -
  obtain r1 v1 where c1: "call SerialReadAll (serial_read_all ops) w = (r1, v1)"
    by (cases "call SerialReadAll (serial_read_all ops) w")
  have t1: "trace v1 = trace w @ [SerialReadAll]" using c1 by (rule call_eq_trace)
  show ?thesis
  proof (cases r1)
    case (Inl err)
    with assms c1 have "w1 = emit (LogError err) v1" by (simp add: change_baudrate_def)
    then have "trace w1 = trace w @ [SerialReadAll] @ [LogError err]"
      by (simp add: trace_emit t1)
    then show ?thesis by fastforce
  next
    case u1: (Inr u1)
    obtain r2 v2 where c2: "call (UartConfigure baudrate) (uart_configure ops baudrate) v1 = (r2, v2)"
      by (cases "call (UartConfigure baudrate) (uart_configure ops baudrate) v1")
    have t2: "trace v2 = trace w @ [SerialReadAll, UartConfigure baudrate]"
      using call_eq_trace [OF c2] t1 by simp
    show ?thesis
    proof (cases r2)
      case (Inl err)
      with assms c1 u1 c2 have "w1 = emit (LogError err) v2" by (simp add: change_baudrate_def)
      then have "trace w1 = trace w @ [SerialReadAll, UartConfigure baudrate] @ [LogError err]"
        by (simp add: trace_emit t2)
      then show ?thesis by fastforce
    next
      case u2: (Inr u2)
      obtain r3 v3 where c3: "call UartInWaiting (uart_in_waiting ops) v2 = (r3, v3)"
        by (cases "call UartInWaiting (uart_in_waiting ops) v2")
      have t3: "trace v3 = trace w @ [SerialReadAll, UartConfigure baudrate, UartInWaiting]"
        using call_eq_trace [OF c3] t2 by simp
      show ?thesis
      proof (cases r3)
        case (Inl err)
        with assms c1 u1 c2 u2 c3 have "w1 = emit (LogError err) v3"
          by (simp add: change_baudrate_def)
        then have "trace w1 =
            trace w @ [SerialReadAll, UartConfigure baudrate, UartInWaiting] @ [LogError err]"
          by (simp add: trace_emit t3)
        then show ?thesis by fastforce
      next
        case n: (Inr n)
        obtain r4 v4 where c4: "call (UartReceive n) (uart_receive ops n) v3 = (r4, v4)"
          by (cases "call (UartReceive n) (uart_receive ops n) v3")
        have t4: "trace v4 =
            trace w @ [SerialReadAll, UartConfigure baudrate, UartInWaiting, UartReceive n]"
          using call_eq_trace [OF c4] t3 by simp
        show ?thesis
        proof (cases r4)
          case (Inl err)
          with assms c1 u1 c2 u2 c3 n c4 have "w1 = emit (LogError err) v4"
            by (simp add: change_baudrate_def)
          then have "trace w1 =
              trace w @ [SerialReadAll, UartConfigure baudrate, UartInWaiting, UartReceive n]
                @ [LogError err]"
            by (simp add: trace_emit t4)
          then show ?thesis by fastforce
        next
          case (Inr bs)
          with assms c1 u1 c2 u2 c3 n c4 show ?thesis by (simp add: change_baudrate_def)
        qed
      qed
    qed
  qed
qed

lemma sweep_skips_failed:
  assumes "change_baudrate ops baudrate w = (False, w1)"
  shows "sweep ops opts (baudrate # rest) w = sweep ops opts rest w1"
  using assms by simp

lemma change_baudrate_configure_raises:
  assumes "call SerialReadAll (serial_read_all ops) w = (Inr u, w0)"
    and "call (UartConfigure baudrate) (uart_configure ops baudrate) w0 = (Inl err, w1)"
  shows "change_baudrate ops baudrate w = (False, emit (LogError err) w1)"
    and "trace (emit (LogError err) w1) =
           trace w @ [SerialReadAll, UartConfigure baudrate, LogError err]"
  using assms call_eq_trace [OF assms(1)] call_eq_trace [OF assms(2)]
  by (simp_all add: change_baudrate_def trace_emit)

subsection \<open>Options and rate generation\<close>

lemma str_split_nonempty: "str_split sep s \<noteq> []"
  by (induction s) (auto split: list.splits)

text \<open>In list mode, \<^verbatim>\<open>check_options\<close> accepts whatever the list option holds.\<close>

lemma check_options_list_mode:
  assumes "opt_reset_pin opts = None" and "upper (opt_mode opts) = ''LIST''"
  shows "check_options opts w = (True, w)"
  using assms by (simp add: check_options_def str_split_nonempty)

lemma upper_list: "upper ''list'' = ''LIST''"
  by code_simp

lemma range_up_progression:
  "0 < step \<Longrightarrow>
   \<exists>n. range_up i stop step = map (\<lambda>k. i + int k * step) [0..<n]
     \<and> (\<forall>k<n. i + int k * step < stop)
     \<and> stop \<le> i + int n * step"
proof (induction i stop step rule: range_up.induct)
  case (1 i stop step)
  show ?case
  proof (cases "i < stop")
    case False
    then have "range_up i stop step = []" by (simp add: range_up.simps)
    with False show ?thesis by (intro exI [of _ 0]) simp
  next
    case True
    with "1.prems" have go: "0 < step \<and> i < stop" by simp
    from "1.IH" [OF go "1.prems"] obtain n where
      n: "range_up (i + step) stop step = map (\<lambda>k. i + step + int k * step) [0..<n]"
         "\<forall>k<n. i + step + int k * step < stop"
         "stop \<le> i + step + int n * step"
      by blast
    have eq: "i + step + int k * step = i + int (Suc k) * step" for k
      by (simp add: algebra_simps)
    have "range_up i stop step = i # range_up (i + step) stop step"
      using go by (simp add: range_up.simps [of i])
    also have "\<dots> = map (\<lambda>k. i + int k * step) [0..<Suc n]"
      unfolding n(1) by (simp add: map_upt_Suc eq del: upt_Suc)
    finally have a: "range_up i stop step = map (\<lambda>k. i + int k * step) [0..<Suc n]" .
    have b: "\<forall>k<Suc n. i + int k * step < stop"
    proof (intro allI impI)
      fix k assume "k < Suc n"
      show "i + int k * step < stop"
      proof (cases k)
        case 0
        with True show ?thesis by simp
      next
        case (Suc j)
        with \<open>k < Suc n\<close> n(2) have "i + step + int j * step < stop" by simp
        with Suc show ?thesis by (simp add: eq)
      qed
    qed
    have c: "stop \<le> i + int (Suc n) * step" using n(3) by (simp add: eq)
    from a b c show ?thesis by blast
  qed
qed

section \<open>The claims about sampling\<close>

text \<open>
  Claim C5. While collecting for one candidate rate the trigger bytes are transmitted at
  most 3 times, whatever the port does. In particular, on a port that has data only after
  the second trigger, collection completes, with 2 transmissions.
\<close>

theorem trigger_budget:
  "transmits (trace (snd (process_baudrate ops opts baudrate w))) \<le> transmits (trace w) + 3
   \<and> fst (process_baudrate late_port (default_options\<lparr>opt_trigger := True\<rparr>) 9600 world0)
       = Inr None
   \<and> transmits (trace (snd (process_baudrate late_port
         (default_options\<lparr>opt_trigger := True\<rparr>) 9600 world0))) = 2"
proof (intro conjI)
  show "transmits (trace (snd (process_baudrate ops opts baudrate w))) \<le> transmits (trace w) + 3"
    by (rule process_baudrate_transmits)
  show "fst (process_baudrate late_port (default_options\<lparr>opt_trigger := True\<rparr>) 9600 world0)
       = Inr None"
    by (simp add: process_baudrate_completed [OF late_port_loop entropy_ten_A])
  show "transmits (trace (snd (process_baudrate late_port
         (default_options\<lparr>opt_trigger := True\<rparr>) 9600 world0))) = 2"
    unfolding process_baudrate_completed [OF late_port_loop entropy_ten_A]
    by (simp add: print_result_trace transmits_def default_options_def)
qed

theorem trigger_budget_witness:
  "transmits (trace (snd (process_baudrate stalling_port
       (default_options\<lparr>opt_trigger := True\<rparr>) 9600 world0)))
     \<le> transmits (trace world0) + 3"
  using trigger_budget [of stalling_port "default_options\<lparr>opt_trigger := True\<rparr>" 9600 world0]
  by (rule conjunct1)

text \<open>
  Claim C4, as stated: a byte read within the timeout resets the stall-retry counter, so
  that the budget of 3 triggers applies to each stall. It fails on the port that stalls
  once before each byte, with trigger enabled: every stall is ended by a single trigger,
  yet at the fourth stall no trigger is sent and the collection is given up after 3 bytes.
\<close>

theorem stall_counter_reset_counterexample:
  "process_baudrate stalling_port (default_options\<lparr>opt_trigger := True\<rparr>) 9600 world0 =
   (Inr (Some False),
    \<lparr>hw = \<lparr>polls = 7, one_reads = 3, sends = 3\<rparr>, reset_pin = None,
     trace =
       [ProgressStart,
        PollWindow, LogMessage INFO TriggeringTheDevice, UartTransmit [0x0D, 0x0A], Sleep (2 / 10),
        PollWindow, UartReceive 1, ProgressStatus [0x41],
        PollWindow, LogMessage INFO TriggeringTheDevice, UartTransmit [0x0D, 0x0A], Sleep (2 / 10),
        PollWindow, UartReceive 1, ProgressStatus [0x41],
        PollWindow, LogMessage INFO TriggeringTheDevice, UartTransmit [0x0D, 0x0A], Sleep (2 / 10),
        PollWindow, UartReceive 1, ProgressStatus [0x41],
        PollWindow, ProgressStop, LogNoData 9600]\<rparr>)"
proof -
  have "process_loop stalling_port (default_options\<lparr>opt_trigger := True\<rparr>) 9600 0 0 []
          (emit ProgressStart world0) =
        (Inr None,
         \<lparr>hw = \<lparr>polls = 7, one_reads = 3, sends = 3\<rparr>, reset_pin = None,
          trace =
            [ProgressStart,
             PollWindow, LogMessage INFO TriggeringTheDevice, UartTransmit [0x0D, 0x0A], Sleep (2 / 10),
             PollWindow, UartReceive 1, ProgressStatus [0x41],
             PollWindow, LogMessage INFO TriggeringTheDevice, UartTransmit [0x0D, 0x0A], Sleep (2 / 10),
             PollWindow, UartReceive 1, ProgressStatus [0x41],
             PollWindow, LogMessage INFO TriggeringTheDevice, UartTransmit [0x0D, 0x0A], Sleep (2 / 10),
             PollWindow, UartReceive 1, ProgressStatus [0x41],
             PollWindow, ProgressStop, LogNoData 9600]\<rparr>)"
    by (simp add: process_loop.simps sim_defs stalling_port_def)
  then show ?thesis by (rule process_baudrate_timeout)
qed

text \<open>
  Claim C4, amended: a byte read within the timeout is appended to the sample and counted,
  and leaves the stall-retry counter as it is. The counter only grows, by one per trigger,
  so that from a point where it has the value \<open>loop\<close> the rest of the collection for this
  candidate transmits the trigger bytes at most \<open>3 - loop\<close> times: the budget of 3 is
  spent once over the whole candidate.
\<close>

theorem stall_counter_kept_on_read:
  assumes "count < threshold"
    and "wait_bytes ops w = (Inr True, w1)"
    and "call (UartReceive 1) (uart_receive ops 1) w1 = (Inr tmp, w2)"
  shows "process_loop ops opts baudrate count loop received_bytes w =
           process_loop ops opts baudrate (count + 1) loop (received_bytes @ tmp)
             (emit (ProgressStatus tmp) w2)
       \<and> transmits (trace (snd (process_loop ops opts baudrate count loop received_bytes w)))
           \<le> transmits (trace w) + (3 - loop)"
  using loop_read [OF assms] process_loop_transmits by blast

theorem stall_counter_kept_on_read_witness:
  "(0::nat) < threshold
   \<and> wait_bytes chatty_port world0 =
       (Inr True, \<lparr>hw = \<lparr>polls = 1, one_reads = 0, sends = 0\<rparr>, reset_pin = None,
                   trace = [PollWindow]\<rparr>)
   \<and> call (UartReceive 1) (uart_receive chatty_port 1)
         \<lparr>hw = \<lparr>polls = 1, one_reads = 0, sends = 0\<rparr>, reset_pin = None, trace = [PollWindow]\<rparr>
       = (Inr [0x41], \<lparr>hw = \<lparr>polls = 1, one_reads = 1, sends = 0\<rparr>, reset_pin = None,
                       trace = [PollWindow, UartReceive 1]\<rparr>)
   \<and> process_loop chatty_port (default_options\<lparr>opt_trigger := True\<rparr>) 9600 0 2 [] world0 =
       process_loop chatty_port (default_options\<lparr>opt_trigger := True\<rparr>) 9600 (0 + 1) 2 ([] @ [0x41])
         (emit (ProgressStatus [0x41])
            \<lparr>hw = \<lparr>polls = 1, one_reads = 1, sends = 0\<rparr>, reset_pin = None,
             trace = [PollWindow, UartReceive 1]\<rparr>)
   \<and> transmits (trace (snd (process_loop chatty_port (default_options\<lparr>opt_trigger := True\<rparr>)
          9600 0 2 [] world0)))
       \<le> transmits (trace world0) + (3 - 2)"
proof -
  have a: "(0::nat) < threshold" by (simp add: threshold_def)
  have b: "wait_bytes chatty_port world0 =
       (Inr True, \<lparr>hw = \<lparr>polls = 1, one_reads = 0, sends = 0\<rparr>, reset_pin = None,
                   trace = [PollWindow]\<rparr>)"
    by (simp add: sim_defs chatty_port_def)
  have c: "call (UartReceive 1) (uart_receive chatty_port 1)
         \<lparr>hw = \<lparr>polls = 1, one_reads = 0, sends = 0\<rparr>, reset_pin = None, trace = [PollWindow]\<rparr>
       = (Inr [0x41], \<lparr>hw = \<lparr>polls = 1, one_reads = 1, sends = 0\<rparr>, reset_pin = None,
                       trace = [PollWindow, UartReceive 1]\<rparr>)"
    by (simp add: sim_defs chatty_port_def)
  show ?thesis
    using a b c
      stall_counter_kept_on_read [OF a b c, of "default_options\<lparr>opt_trigger := True\<rparr>" 9600 2 "[]"]
    by blast
qed

text \<open>
  Claim C9 says that a collection that succeeds hands exactly 10 bytes to the entropy
  scorer, also on a port whose \<^verbatim>\<open>receive(1)\<close> may return no byte after data was announced.
  The docstring of \<^verbatim>\<open>process_baudrate\<close> asks for the same ("10 characters are required to
  calculate the entropy"), but the loop adds one to \<^verbatim>\<open>count\<close> for each call of
  \<^verbatim>\<open>receive(1)\<close>, whatever it returned. On the port whose first read returns nothing, the
  ten reads are made, the collection succeeds, and the sample that is scored and printed
  has 9 bytes.
\<close>

theorem short_read_sample_has_nine_bytes:
  "fst (process_loop short_read_port default_options 9600 0 0 [] (emit ProgressStart world0))
     = Inr (Some [0x41, 0x41, 0x41, 0x41, 0x41, 0x41, 0x41, 0x41, 0x41])
   \<and> fst (process_baudrate short_read_port default_options 9600 world0) = Inr None
   \<and> filter is_print (trace (snd (process_baudrate short_read_port default_options 9600 world0)))
     = [PrintResult 9600 0
          (bytearray_to_hex_repr [0x41, 0x41, 0x41, 0x41, 0x41, 0x41, 0x41, 0x41, 0x41])]"
proof -
  have l: "process_loop short_read_port default_options 9600 0 0 [] (emit ProgressStart world0) =
   (Inr (Some [0x41, 0x41, 0x41, 0x41, 0x41, 0x41, 0x41, 0x41, 0x41]),
    \<lparr>hw = \<lparr>polls = 10, one_reads = 10, sends = 0\<rparr>, reset_pin = None,
     trace =
       [ProgressStart,
        PollWindow, UartReceive 1, ProgressStatus [],
        PollWindow, UartReceive 1, ProgressStatus [0x41],
        PollWindow, UartReceive 1, ProgressStatus [0x41],
        PollWindow, UartReceive 1, ProgressStatus [0x41],
        PollWindow, UartReceive 1, ProgressStatus [0x41],
        PollWindow, UartReceive 1, ProgressStatus [0x41],
        PollWindow, UartReceive 1, ProgressStatus [0x41],
        PollWindow, UartReceive 1, ProgressStatus [0x41],
        PollWindow, UartReceive 1, ProgressStatus [0x41],
        PollWindow, UartReceive 1, ProgressStatus [0x41]]\<rparr>)"
    by (simp add: process_loop.simps sim_defs short_read_port_def)
  have e: "entropy [0x41, 0x41, 0x41, 0x41, 0x41, 0x41, 0x41, 0x41, 0x41] = Inr 0"
    by (rule entropy_single_value [where v = "0x41"]) simp_all
  show ?thesis
    unfolding process_baudrate_completed [OF l e] l
    by (simp add: print_result_trace default_options_def)
qed

text \<open>
  Claim C6. For a completed sample: with a minimum-entropy filter configured, the result
  (rate, entropy, hex-escaped bytes) is printed if and only if the entropy of the sample
  is greater than or equal to the configured value; without a filter it is always printed.
  Nothing else is written after the loop.
\<close>

theorem result_printed_iff_entropy_passes:
  assumes "process_loop ops opts baudrate 0 0 [] (emit ProgressStart w) = (Inr (Some sample), w1)"
  shows "\<exists>e. entropy sample = Inr e
           \<and> fst (process_baudrate ops opts baudrate w) = Inr None
           \<and> trace (snd (process_baudrate ops opts baudrate w)) =
               trace w1 @
                 (if (case opt_min_entropy opts of None \<Rightarrow> True | Some m \<Rightarrow> e \<ge> m)
                  then [PrintResult baudrate e (bytearray_to_hex_repr sample)] else [])"
proof -
  obtain e where e: "entropy sample = Inr e" using entropy_returns by blast
  show ?thesis
    using e by (auto simp: process_baudrate_completed [OF assms e] print_result_trace)
qed


theorem result_printed_iff_entropy_passes_witness:
  "fst (process_loop chatty_port default_options 9600 0 0 [] (emit ProgressStart world0))
     = Inr (Some [0x41, 0x41, 0x41, 0x41, 0x41, 0x41, 0x41, 0x41, 0x41, 0x41])
   \<and> trace (snd (process_baudrate chatty_port default_options 9600 world0)) =
       trace (snd (process_loop chatty_port default_options 9600 0 0 [] (emit ProgressStart world0)))
       @ [PrintResult 9600 0
            (bytearray_to_hex_repr [0x41, 0x41, 0x41, 0x41, 0x41, 0x41, 0x41, 0x41, 0x41, 0x41])]
   \<and> trace (snd (process_baudrate chatty_port
         (default_options\<lparr>opt_min_entropy := Some 3\<rparr>) 9600 world0)) =
       trace (snd (process_loop chatty_port (default_options\<lparr>opt_min_entropy := Some 3\<rparr>)
         9600 0 0 [] (emit ProgressStart world0)))
   \<and> trace (snd (process_baudrate chatty_port
         (default_options\<lparr>opt_min_entropy := Some 0\<rparr>) 9600 world0)) =
       trace (snd (process_loop chatty_port (default_options\<lparr>opt_min_entropy := Some 0\<rparr>)
         9600 0 0 [] (emit ProgressStart world0)))
       @ [PrintResult 9600 0
            (bytearray_to_hex_repr [0x41, 0x41, 0x41, 0x41, 0x41, 0x41, 0x41, 0x41, 0x41, 0x41])]"
proof -
  have none: "opt_min_entropy default_options = None"
    by (simp add: default_options_def)
  show ?thesis
    using result_printed_iff_entropy_passes [OF chatty_port_loop [of default_options 9600]]
      result_printed_iff_entropy_passes
        [OF chatty_port_loop [of "default_options\<lparr>opt_min_entropy := Some 3\<rparr>" 9600]]
      result_printed_iff_entropy_passes
        [OF chatty_port_loop [of "default_options\<lparr>opt_min_entropy := Some 0\<rparr>" 9600]]
    by (simp add: entropy_ten_A chatty_port_loop none)
qed

section \<open>The claims about the sweep\<close>

text \<open>
  Claim C2, as stated: when reconfiguring the port raises at one candidate rate, the whole
  sweep is aborted and no later candidate is reset, sampled or scored. It fails on the
  port whose \<^verbatim>\<open>configure\<close> raises at 9600 baud only, swept over 9600 and 19200: the error
  is logged, and then 19200 is configured, sampled ten times, scored and printed.
\<close>

theorem reconfiguration_failure_counterexample:
  "incremental_mode flaky_port
     (default_options\<lparr>opt_baudrate_min := 9600, opt_baudrate_max := 20000,
                      opt_baudrate_inc := 9600\<rparr>) world0 =
   (Inr (),
    \<lparr>hw = \<lparr>polls = 10, one_reads = 10, sends = 0\<rparr>, reset_pin = None,
     trace =
       [SerialReadAll, UartConfigure 9600, LogError (TransportError ''configure''),
        SerialReadAll, UartConfigure 19200, UartInWaiting, UartReceive 0,
        ProgressStart,
        PollWindow, UartReceive 1, ProgressStatus [0x41],
        PollWindow, UartReceive 1, ProgressStatus [0x41],
        PollWindow, UartReceive 1, ProgressStatus [0x41],
        PollWindow, UartReceive 1, ProgressStatus [0x41],
        PollWindow, UartReceive 1, ProgressStatus [0x41],
        PollWindow, UartReceive 1, ProgressStatus [0x41],
        PollWindow, UartReceive 1, ProgressStatus [0x41],
        PollWindow, UartReceive 1, ProgressStatus [0x41],
        PollWindow, UartReceive 1, ProgressStatus [0x41],
        PollWindow, UartReceive 1, ProgressStatus [0x41],
        PrintResult 19200 0
          (bytearray_to_hex_repr [0x41, 0x41, 0x41, 0x41, 0x41, 0x41, 0x41, 0x41, 0x41, 0x41])]\<rparr>)"
  by (simp add: incremental_mode_def range_two change_baudrate_def reset_target_def
        process_baudrate_def process_loop.simps sim_defs flaky_port_def entropy_ten_A
        print_result_def truthy_def)

text \<open>
  Claim C2, amended: when \<^verbatim>\<open>configure\<close> raises at a candidate rate, \<^verbatim>\<open>change_baudrate\<close>
  logs the error and returns false. Whenever \<^verbatim>\<open>change_baudrate\<close> returns false (one of its
  steps raised), nothing but its own calls on the port and the logged error has happened
  for that candidate: no reset, no sampling, no scoring. The sweep is not aborted: it goes
  on with the next candidate rate.
\<close>

theorem failed_reconfiguration_skips_candidate:
  "(call SerialReadAll (serial_read_all ops) w = (Inr u, w0)
      \<and> call (UartConfigure baudrate) (uart_configure ops baudrate) w0 = (Inl err, w1)
    \<longrightarrow> change_baudrate ops baudrate w = (False, emit (LogError err) w1)
      \<and> trace (emit (LogError err) w1) =
            trace w @ [SerialReadAll, UartConfigure baudrate, LogError err])
   \<and> (change_baudrate ops baudrate w = (False, w2)
    \<longrightarrow> sweep ops opts (baudrate # rest) w = sweep ops opts rest w2
      \<and> (\<exists>e evs. trace w2 = trace w @ evs @ [LogError e]
                  \<and> (\<forall>ev\<in>set evs. is_reconfigure baudrate ev)))"
  using change_baudrate_configure_raises [of ops w u w0 baudrate err w1]
    sweep_skips_failed [of ops baudrate w w2 opts rest]
    change_baudrate_failed [of ops baudrate w w2]
  by blast

theorem failed_reconfiguration_skips_candidate_witness:
  "call SerialReadAll (serial_read_all flaky_port) world0 =
     (Inr (), \<lparr>hw = \<lparr>polls = 0, one_reads = 0, sends = 0\<rparr>, reset_pin = None,
               trace = [SerialReadAll]\<rparr>)
   \<and> call (UartConfigure 9600) (uart_configure flaky_port 9600)
         \<lparr>hw = \<lparr>polls = 0, one_reads = 0, sends = 0\<rparr>, reset_pin = None,
          trace = [SerialReadAll]\<rparr> =
     (Inl (TransportError ''configure''),
      \<lparr>hw = \<lparr>polls = 0, one_reads = 0, sends = 0\<rparr>, reset_pin = None,
       trace = [SerialReadAll, UartConfigure 9600]\<rparr>)
   \<and> change_baudrate flaky_port 9600 world0 =
     (False, \<lparr>hw = \<lparr>polls = 0, one_reads = 0, sends = 0\<rparr>, reset_pin = None,
              trace = [SerialReadAll, UartConfigure 9600, LogError (TransportError ''configure'')]\<rparr>)
   \<and> sweep flaky_port default_options [9600, 19200] world0 =
       sweep flaky_port default_options [19200]
         \<lparr>hw = \<lparr>polls = 0, one_reads = 0, sends = 0\<rparr>, reset_pin = None,
          trace = [SerialReadAll, UartConfigure 9600, LogError (TransportError ''configure'')]\<rparr>"
proof -
  let ?w0 = "\<lparr>hw = \<lparr>polls = 0, one_reads = 0, sends = 0\<rparr>, reset_pin = None,
               trace = [SerialReadAll]\<rparr> :: port_state world"
  let ?w1 = "\<lparr>hw = \<lparr>polls = 0, one_reads = 0, sends = 0\<rparr>, reset_pin = None,
               trace = [SerialReadAll, UartConfigure 9600]\<rparr> :: port_state world"
  let ?w2 = "\<lparr>hw = \<lparr>polls = 0, one_reads = 0, sends = 0\<rparr>, reset_pin = None,
               trace = [SerialReadAll, UartConfigure 9600,
                        LogError (TransportError ''configure'')]\<rparr> :: port_state world"
  have a: "call SerialReadAll (serial_read_all flaky_port) world0 = (Inr (), ?w0)"
    by (simp add: sim_defs flaky_port_def)
  have b: "call (UartConfigure 9600) (uart_configure flaky_port 9600) ?w0
             = (Inl (TransportError ''configure''), ?w1)"
    by (simp add: sim_defs flaky_port_def)
  have e: "emit (LogError (TransportError ''configure'')) ?w1 = ?w2"
    by (simp add: emit_def)
  have c: "change_baudrate flaky_port 9600 world0 = (False, ?w2)"
    using failed_reconfiguration_skips_candidate
      [of flaky_port world0 "()" ?w0 9600 "TransportError ''configure''" ?w1 ?w2
          default_options "[19200]"] a b
    unfolding e by blast
  have d: "sweep flaky_port default_options [9600, 19200] world0 =
       sweep flaky_port default_options [19200] ?w2"
    using failed_reconfiguration_skips_candidate
      [of flaky_port world0 "()" ?w0 9600 "TransportError ''configure''" ?w1 ?w2
          default_options "[19200]"] c
    by blast
  from a b c d show ?thesis by (intro conjI)
qed

text \<open>
  Claim C1 says that the sweep halts at the first candidate whose sample collection
  completes. The loops of \<^verbatim>\<open>list_mode\<close> and \<^verbatim>\<open>incremental_mode\<close> are written to do so
  (\<^verbatim>\<open>if self.process_baudrate(...): break\<close>, "Stop the loop if valid baudrate is found"),
  but \<^verbatim>\<open>process_baudrate\<close> ends without a \<^verbatim>\<open>return\<close> after a completed sample, so the
  test never succeeds: on no port, with no options and at no rate does \<^verbatim>\<open>process_baudrate\<close>
  return a true value. On the port that always has a byte ready, swept over 9600 and
  19200, the sample at 9600 completes and is printed, and 19200 is then configured,
  sampled and printed as well, in both modes.
\<close>

theorem sweep_continues_after_completed_sample:
  "\<not> truthy (case fst (process_baudrate ops opts baudrate w) of Inl e \<Rightarrow> None | Inr r \<Rightarrow> r)
   \<and> filter (\<lambda>ev. is_configure ev \<or> is_print ev)
     (trace (snd (list_mode chatty_port
        (default_options\<lparr>opt_mode := ''list'', opt_baudrate_list := ''9600,19200''\<rparr>) world0)))
   = [UartConfigure 9600,
      PrintResult 9600 0
        (bytearray_to_hex_repr [0x41, 0x41, 0x41, 0x41, 0x41, 0x41, 0x41, 0x41, 0x41, 0x41]),
      UartConfigure 19200,
      PrintResult 19200 0
        (bytearray_to_hex_repr [0x41, 0x41, 0x41, 0x41, 0x41, 0x41, 0x41, 0x41, 0x41, 0x41])]
   \<and> filter (\<lambda>ev. is_configure ev \<or> is_print ev)
     (trace (snd (incremental_mode chatty_port
        (default_options\<lparr>opt_baudrate_min := 9600, opt_baudrate_max := 20000,
                         opt_baudrate_inc := 9600\<rparr>) world0)))
   = [UartConfigure 9600,
      PrintResult 9600 0
        (bytearray_to_hex_repr [0x41, 0x41, 0x41, 0x41, 0x41, 0x41, 0x41, 0x41, 0x41, 0x41]),
      UartConfigure 19200,
      PrintResult 19200 0
        (bytearray_to_hex_repr [0x41, 0x41, 0x41, 0x41, 0x41, 0x41, 0x41, 0x41, 0x41, 0x41])]
   \<and> reads (trace (snd (list_mode chatty_port
        (default_options\<lparr>opt_mode := ''list'', opt_baudrate_list := ''9600,19200''\<rparr>) world0)))
     = 20"
proof -
  have lm: "list_mode chatty_port
        (default_options\<lparr>opt_mode := ''list'', opt_baudrate_list := ''9600,19200''\<rparr>) world0
      = sweep chatty_port
        (default_options\<lparr>opt_mode := ''list'', opt_baudrate_list := ''9600,19200''\<rparr>)
        [9600, 19200] world0"
  proof -
    have "opt_baudrate_list (default_options\<lparr>opt_mode := ''list'',
            opt_baudrate_list := ''9600,19200''\<rparr>) = ''9600,19200''"
      by simp
    then show ?thesis
      unfolding list_mode_def by (simp only: parse_list sum.case)
  qed
  have im: "incremental_mode chatty_port
        (default_options\<lparr>opt_baudrate_min := 9600, opt_baudrate_max := 20000,
                         opt_baudrate_inc := 9600\<rparr>) world0
      = sweep chatty_port
        (default_options\<lparr>opt_baudrate_min := 9600, opt_baudrate_max := 20000,
                         opt_baudrate_inc := 9600\<rparr>)
        [9600, 19200] world0"
  proof -
    have "py_range
        (opt_baudrate_min (default_options\<lparr>opt_baudrate_min := 9600,
           opt_baudrate_max := 20000, opt_baudrate_inc := 9600\<rparr>))
        (opt_baudrate_max (default_options\<lparr>opt_baudrate_min := 9600,
           opt_baudrate_max := 20000, opt_baudrate_inc := 9600\<rparr>))
        (opt_baudrate_inc (default_options\<lparr>opt_baudrate_min := 9600,
           opt_baudrate_max := 20000, opt_baudrate_inc := 9600\<rparr>))
      = Inr [9600, 19200]"
      by (simp add: range_two)
    then show ?thesis
      unfolding incremental_mode_def by (simp only: sum.case)
  qed
  have run: "sweep chatty_port opts [9600, 19200] world0 =
   (Inr (),
    \<lparr>hw = \<lparr>polls = 20, one_reads = 20, sends = 0\<rparr>, reset_pin = None,
     trace =
       [SerialReadAll, UartConfigure 9600, UartInWaiting, UartReceive 0,
        ProgressStart,
        PollWindow, UartReceive 1, ProgressStatus [0x41],
        PollWindow, UartReceive 1, ProgressStatus [0x41],
        PollWindow, UartReceive 1, ProgressStatus [0x41],
        PollWindow, UartReceive 1, ProgressStatus [0x41],
        PollWindow, UartReceive 1, ProgressStatus [0x41],
        PollWindow, UartReceive 1, ProgressStatus [0x41],
        PollWindow, UartReceive 1, ProgressStatus [0x41],
        PollWindow, UartReceive 1, ProgressStatus [0x41],
        PollWindow, UartReceive 1, ProgressStatus [0x41],
        PollWindow, UartReceive 1, ProgressStatus [0x41],
        PrintResult 9600 0
          (bytearray_to_hex_repr [0x41, 0x41, 0x41, 0x41, 0x41, 0x41, 0x41, 0x41, 0x41, 0x41]),
        SerialReadAll, UartConfigure 19200, UartInWaiting, UartReceive 0,
        ProgressStart,
        PollWindow, UartReceive 1, ProgressStatus [0x41],
        PollWindow, UartReceive 1, ProgressStatus [0x41],
        PollWindow, UartReceive 1, ProgressStatus [0x41],
        PollWindow, UartReceive 1, ProgressStatus [0x41],
        PollWindow, UartReceive 1, ProgressStatus [0x41],
        PollWindow, UartReceive 1, ProgressStatus [0x41],
        PollWindow, UartReceive 1, ProgressStatus [0x41],
        PollWindow, UartReceive 1, ProgressStatus [0x41],
        PollWindow, UartReceive 1, ProgressStatus [0x41],
        PollWindow, UartReceive 1, ProgressStatus [0x41],
        PrintResult 19200 0
          (bytearray_to_hex_repr [0x41, 0x41, 0x41, 0x41, 0x41, 0x41, 0x41, 0x41, 0x41, 0x41])]\<rparr>)"
    if "opt_min_entropy opts = None" for opts
    using that
    by (simp add: change_baudrate_def reset_target_def process_baudrate_def process_loop.simps
          wait_bytes_def call_def emit_def sim_port_def threshold_def world0_def
          chatty_port_def entropy_ten_A print_result_def truthy_def)
  have none: "opt_min_entropy (default_options\<lparr>opt_mode := ''list'',
                 opt_baudrate_list := ''9600,19200''\<rparr>) = None"
       "opt_min_entropy (default_options\<lparr>opt_baudrate_min := 9600,
                 opt_baudrate_max := 20000, opt_baudrate_inc := 9600\<rparr>) = None"
    by (simp_all add: default_options_def)
  have never: "\<not> truthy (case fst (process_baudrate ops opts baudrate w) of
                            Inl e \<Rightarrow> None | Inr r \<Rightarrow> r)"
  proof (cases "process_baudrate ops opts baudrate w")
    case (Pair x w')
    show ?thesis
    proof (cases x)
      case (Inl e)
      with Pair show ?thesis by (simp add: truthy_def)
    next
      case (Inr r)
      with Pair process_baudrate_never_truthy [of ops opts baudrate w r w']
      show ?thesis by simp
    qed
  qed
  have runs: "filter (\<lambda>ev. is_configure ev \<or> is_print ev)
     (trace (snd (list_mode chatty_port
        (default_options\<lparr>opt_mode := ''list'', opt_baudrate_list := ''9600,19200''\<rparr>) world0)))
   = [UartConfigure 9600,
      PrintResult 9600 0
        (bytearray_to_hex_repr [0x41, 0x41, 0x41, 0x41, 0x41, 0x41, 0x41, 0x41, 0x41, 0x41]),
      UartConfigure 19200,
      PrintResult 19200 0
        (bytearray_to_hex_repr [0x41, 0x41, 0x41, 0x41, 0x41, 0x41, 0x41, 0x41, 0x41, 0x41])]
   \<and> filter (\<lambda>ev. is_configure ev \<or> is_print ev)
     (trace (snd (incremental_mode chatty_port
        (default_options\<lparr>opt_baudrate_min := 9600, opt_baudrate_max := 20000,
                         opt_baudrate_inc := 9600\<rparr>) world0)))
   = [UartConfigure 9600,
      PrintResult 9600 0
        (bytearray_to_hex_repr [0x41, 0x41, 0x41, 0x41, 0x41, 0x41, 0x41, 0x41, 0x41, 0x41]),
      UartConfigure 19200,
      PrintResult 19200 0
        (bytearray_to_hex_repr [0x41, 0x41, 0x41, 0x41, 0x41, 0x41, 0x41, 0x41, 0x41, 0x41])]
   \<and> reads (trace (snd (list_mode chatty_port
        (default_options\<lparr>opt_mode := ''list'', opt_baudrate_list := ''9600,19200''\<rparr>) world0)))
     = 20"
    unfolding lm im run [OF none(1)] run [OF none(2)]
    by (simp add: reads_def)
  from never runs show ?thesis by (rule conjI)
qed

text \<open>
  Claim C8. In incremental mode, with a positive step, the candidate rates that the sweep
  goes through are exactly \<open>min\<close>, \<open>min + step\<close>, \<open>min + 2 step\<close>, \<open>\<dots>\<close> in this order, as
  long as they are strictly below \<open>max\<close>: the first \<open>n\<close> terms of the progression, where
  the term of index \<open>n\<close> is the first that reaches \<open>max\<close>.
\<close>

theorem incremental_rates:
  assumes "0 < opt_baudrate_inc opts"
  shows "\<exists>n. py_range (opt_baudrate_min opts) (opt_baudrate_max opts) (opt_baudrate_inc opts)
               = Inr (map (\<lambda>k. opt_baudrate_min opts + int k * opt_baudrate_inc opts) [0..<n])
           \<and> incremental_mode ops opts w
               = sweep ops opts
                   (map (\<lambda>k. opt_baudrate_min opts + int k * opt_baudrate_inc opts) [0..<n]) w
           \<and> (\<forall>k<n. opt_baudrate_min opts + int k * opt_baudrate_inc opts < opt_baudrate_max opts)
           \<and> opt_baudrate_max opts \<le> opt_baudrate_min opts + int n * opt_baudrate_inc opts"
proof -
  from range_up_progression [OF assms, of "opt_baudrate_min opts" "opt_baudrate_max opts"]
  obtain n where
    n: "range_up (opt_baudrate_min opts) (opt_baudrate_max opts) (opt_baudrate_inc opts)
          = map (\<lambda>k. opt_baudrate_min opts + int k * opt_baudrate_inc opts) [0..<n]"
       "\<forall>k<n. opt_baudrate_min opts + int k * opt_baudrate_inc opts < opt_baudrate_max opts"
       "opt_baudrate_max opts \<le> opt_baudrate_min opts + int n * opt_baudrate_inc opts"
    by blast
  have r: "py_range (opt_baudrate_min opts) (opt_baudrate_max opts) (opt_baudrate_inc opts)
             = Inr (map (\<lambda>k. opt_baudrate_min opts + int k * opt_baudrate_inc opts) [0..<n])"
    using assms n(1) by (simp add: py_range_def)
  have "incremental_mode ops opts w
          = sweep ops opts
              (map (\<lambda>k. opt_baudrate_min opts + int k * opt_baudrate_inc opts) [0..<n]) w"
    unfolding incremental_mode_def r by (simp only: sum.case)
  with r n(2,3) show ?thesis by blast
qed

theorem incremental_rates_witness:
  "(0::int) < opt_baudrate_inc (default_options\<lparr>opt_baudrate_max := 1200\<rparr>)
   \<and> py_range 300 1200 300 = Inr [300, 600, 900]
   \<and> (\<exists>n. incremental_mode silent_port (default_options\<lparr>opt_baudrate_max := 1200\<rparr>) world0
             = sweep silent_port (default_options\<lparr>opt_baudrate_max := 1200\<rparr>)
                 (map (\<lambda>k. 300 + int k * 300) [0..<n]) world0
          \<and> map (\<lambda>k. 300 + int k * 300) [0..<n] = [300, 600, 900])
   \<and> filter is_configure
        (trace (snd (incremental_mode silent_port
           (default_options\<lparr>opt_baudrate_max := 1200\<rparr>) world0)))
       = [UartConfigure 300, UartConfigure 600, UartConfigure 900]"
proof -
  let ?opts = "default_options\<lparr>opt_baudrate_max := 1200\<rparr>"
  have v: "opt_baudrate_min ?opts = 300" "opt_baudrate_max ?opts = 1200"
       "opt_baudrate_inc ?opts = 300"
    by (simp_all add: default_options_def)
  have pos: "0 < opt_baudrate_inc ?opts" by (simp add: v)
  from incremental_rates [OF pos, of silent_port world0]
  obtain n where
    n: "py_range 300 1200 300 = Inr (map (\<lambda>k. 300 + int k * 300) [0..<n])"
       "incremental_mode silent_port ?opts world0
          = sweep silent_port ?opts (map (\<lambda>k. 300 + int k * 300) [0..<n]) world0"
    unfolding v by blast
  have l: "map (\<lambda>k. 300 + int k * 300) [0..<n] = [300, 600, 900]"
    using n(1) by (simp add: range_three)
  have tr: "filter is_configure (trace (snd (sweep silent_port ?opts [300, 600, 900] world0)))
       = [UartConfigure 300, UartConfigure 600, UartConfigure 900]"
    by (simp add: change_baudrate_def reset_target_def process_baudrate_def
          process_loop.simps sim_defs silent_port_def truthy_def)
  have ex: "\<exists>n. incremental_mode silent_port ?opts world0
             = sweep silent_port ?opts (map (\<lambda>k. 300 + int k * 300) [0..<n]) world0
          \<and> map (\<lambda>k. 300 + int k * 300) [0..<n] = [300, 600, 900]"
  proof (intro exI conjI)
    show "incremental_mode silent_port ?opts world0
             = sweep silent_port ?opts (map (\<lambda>k. 300 + int k * 300) [0..<n]) world0"
      by (rule n(2))
    show "map (\<lambda>k. 300 + int k * 300) [0..<n] = [300, 600, 900]"
      by (rule l)
  qed
  have tr': "filter is_configure (trace (snd (incremental_mode silent_port ?opts world0)))
       = [UartConfigure 300, UartConfigure 600, UartConfigure 900]"
    unfolding n(2) l by (rule tr)
  from pos range_three ex tr' show ?thesis by (intro conjI)
qed

text \<open>
  Claim C7 says that a malformed rate list is rejected by \<^verbatim>\<open>check_options\<close>, before the
  sweep starts. \<^verbatim>\<open>check_options\<close> has a branch for this ("Check the list if the selected
  mode is 'list'", "Invalid baudrate list"), but the branch only splits and strips the
  entries and never converts them. For the list \<^verbatim>\<open>9600,abc\<close> it returns true; \<^verbatim>\<open>run\<close>
  then initialises the adapter and announces the detection, and the error appears only
  when \<^verbatim>\<open>list_mode\<close> converts the entries. No rate is configured or sampled.
\<close>

theorem malformed_list_passes_check_options:
  "check_options (default_options\<lparr>opt_mode := ''list'', opt_baudrate_list := ''9600,abc''\<rparr>)
     world0 = (True, world0)
   \<and> run silent_port (default_options\<lparr>opt_mode := ''list'', opt_baudrate_list := ''9600,abc''\<rparr>)
       world0 =
     \<lparr>hw = \<lparr>polls = 0, one_reads = 0, sends = 0\<rparr>, reset_pin = None,
      trace = [UartCreate 0,
               LogMessage HEADER StartingBaudrateDetection,
               LogMessage HEADER PressCtrlCToCancel,
               LogError ValueError]\<rparr>"
proof -
  let ?opts = "default_options\<lparr>opt_mode := ''list'', opt_baudrate_list := ''9600,abc''\<rparr>"
  have pin: "opt_reset_pin ?opts = None" by (simp add: default_options_def)
  have iface: "opt_uart_interface ?opts = 0" by (simp add: default_options_def)
  have mode: "upper (opt_mode ?opts) = ''LIST''" by (simp add: upper_list)
  have chk: "check_options ?opts w = (True, w)" for w :: "port_state world"
    using pin mode by (rule check_options_list_mode)
  have lst: "list_mode silent_port ?opts w = (Inl ValueError, w)" for w
  proof -
    have "opt_baudrate_list ?opts = ''9600,abc''" by simp
    then show ?thesis
      unfolding list_mode_def by (simp only: parse_bad sum.case)
  qed
  have ini: "init silent_port ?opts world0 =
      (Inr (), \<lparr>hw = \<lparr>polls = 0, one_reads = 0, sends = 0\<rparr>, reset_pin = None,
                trace = [UartCreate 0]\<rparr>)"
    unfolding init_def pin iface
    by (simp add: call_def silent_port_def sim_port_def world0_def)
  have body: "run_body silent_port ?opts world0 =
      (Inl ValueError,
       \<lparr>hw = \<lparr>polls = 0, one_reads = 0, sends = 0\<rparr>, reset_pin = None,
        trace = [UartCreate 0,
                 LogMessage HEADER StartingBaudrateDetection,
                 LogMessage HEADER PressCtrlCToCancel]\<rparr>)"
    unfolding run_body_def ini mode lst
    by (simp add: emit_def)
  have "run silent_port ?opts world0 =
     \<lparr>hw = \<lparr>polls = 0, one_reads = 0, sends = 0\<rparr>, reset_pin = None,
      trace = [UartCreate 0,
               LogMessage HEADER StartingBaudrateDetection,
               LogMessage HEADER PressCtrlCToCancel,
               LogError ValueError]\<rparr>"
    by (simp add: run_def chk body emit_def)
  with chk [of world0] show ?thesis by (rule conjI)
qed

end
